theory Spec2Isabelle
  imports
    Complex_Main
    "HOL-Library.Product_Lexorder"
    "HOL-Library.List_Lexorder"
    "HOL-Library.Char_ord"
begin

section \<open>Data model of \<^verbatim>\<open>cricket.py\<close>\<close>

text \<open>
  The script is one straight line of calls on a data frame. A data frame is modelled
  row by row, as a list of records; the position of a row in the list is its
  position in the frame. A cell of a column of unknown type is missing, a number or
  a text. Numbers are rationals: the arithmetic of the script (sums, means, a
  comparison with 250) is modelled exactly, without the rounding of binary floating
  point.
\<close>

datatype cell = NaN | Num rat | Str string

text \<open>
  What Python can raise, with its message. Everything but \<open>KeyboardInterrupt\<close> and
  \<open>SystemExit\<close> is a subclass of \<open>Exception\<close>. \<open>str\<close> is what \<open>str(e)\<close> gives and
  \<open>print\<close> shows: the message, which for a \<open>KeyError\<close> is written as Python writes
  a string, between single quotes, or between double quotes when the message holds
  a single quote (the messages of this script hold no double quote or backslash).
\<close>

datatype exn =
    ValueError string
  | KeyError string
  | OtherException string
  | KeyboardInterrupt
  | SystemExit

fun isinstance_Exception :: "exn \<Rightarrow> bool" where
  "isinstance_Exception (ValueError _) = True"
| "isinstance_Exception (KeyError _) = True"
| "isinstance_Exception (OtherException _) = True"
| "isinstance_Exception KeyboardInterrupt = False"
| "isinstance_Exception SystemExit = False"

fun str :: "exn \<Rightarrow> string" where
  "str (ValueError s) = s"
| "str (KeyError s) =
     (if CHR 0x27 \<in> set s then [CHR 0x22] @ s @ [CHR 0x22] else [CHR 0x27] @ s @ [CHR 0x27])"
| "str (OtherException s) = s"
| "str KeyboardInterrupt = []"
| "str SystemExit = []"

text \<open>
  A row of \<^verbatim>\<open>cleaned_match_info.csv\<close>: the join key and the other columns, by name.
\<close>

record match_row =
  m_match_id :: cell
  m_info :: "(string \<times> cell) list"

text \<open>
  A row of the delivery table, and of the merged table (\<open>other\<close> then holds the
  columns the match table brought). The columns the script names are fields; the
  numeric ones hold \<open>None\<close> where the value is missing. The type parameter is the
  representation of the two identifier columns: a \<open>cell\<close> as read from the file, a
  category code after \<^verbatim>\<open>astype('category')\<close>.
\<close>

record 'id row =
  match_id :: cell
  over :: "rat option"
  ball_number :: "rat option"
  batter :: 'id
  bowler :: 'id
  runs_batter :: "rat option"
  pressure_index :: "rat option"
  batter_strike_rate :: "rat option"
  bowler_economy :: "rat option"
  other :: "(string \<times> cell) list"

section \<open>Merger and sampler\<close>

text \<open>
  \<^verbatim>\<open>delivery_df.merge(match_df, on='match_id')\<close>: the inner join, in the order of the
  left table; a delivery with no match row is dropped, a match row with no delivery
  contributes nothing.
\<close>

definition merge_row :: "cell row \<Rightarrow> match_row \<Rightarrow> cell row" where
  "merge_row d m = d\<lparr>other := other d @ m_info m\<rparr>"

definition merge :: "cell row list \<Rightarrow> match_row list \<Rightarrow> cell row list" where
  "merge delivery_df match_df =
     concat (map (\<lambda>d. map (merge_row d)
                          (filter (\<lambda>m. m_match_id m = match_id d) match_df))
                 delivery_df)"

text \<open>
  Python's \<open>round\<close>: to the nearest integer, a tie to the even one.
\<close>

definition py_round :: "rat \<Rightarrow> int" where
  "py_round x =
     (let f = \<lfloor>x\<rfloor>; d = x - of_int f
      in if d < 1 / 2 then f
         else if 1 / 2 < d then f + 1
         else if even f then f else f + 1)"

definition sample_frac :: rat where
  "sample_frac = 3 / 10"

definition sample_size :: "nat \<Rightarrow> nat" where
  "sample_size n = nat (py_round (sample_frac * of_nat n))"

text \<open>
  \<^verbatim>\<open>df.sample(frac=0.3, random_state=42)\<close> draws \<open>round(0.3 * len(df))\<close> positions
  without replacement. With no weights pandas asks the generator seeded with 42 for
  \<open>choice(len(df), size, replace=False)\<close>, which numpy computes as the first \<open>size\<close>
  entries of \<open>permutation(len(df))\<close>: the list \<open>0 ..< len(df)\<close>, shuffled in place by
  \<^verbatim>\<open>for i in reversed(range(1, n)): j = random_interval(i); x[i], x[j] = x[j], x[i]\<close>.
  What the seeded generator yields is the parameter \<open>rng\<close>: at the step for \<open>i\<close> it
  gives \<open>rng i\<close>, brought into \<open>0 .. i\<close>.
\<close>

definition exchange :: "nat \<Rightarrow> nat \<Rightarrow> 'a list \<Rightarrow> 'a list" where
  "exchange i j xs = xs[i := xs ! j, j := xs ! i]"

fun shuffle :: "(nat \<Rightarrow> nat) \<Rightarrow> nat \<Rightarrow> 'a list \<Rightarrow> 'a list" where
  "shuffle rng 0 xs = xs"
| "shuffle rng (Suc i) xs =
     shuffle rng i (exchange (Suc i) (rng (Suc i) mod Suc (Suc i)) xs)"

definition permutation :: "(nat \<Rightarrow> nat) \<Rightarrow> nat \<Rightarrow> nat list" where
  "permutation rng n = shuffle rng (n - 1) [0..<n]"

definition positions :: "(nat \<Rightarrow> nat) \<Rightarrow> nat \<Rightarrow> nat list" where
  "positions rng n = take (sample_size n) (permutation rng n)"

definition sample :: "(nat \<Rightarrow> nat) \<Rightarrow> 'a list \<Rightarrow> 'a list" where
  "sample rng df = map (\<lambda>i. df ! i) (positions rng (length df))"

text \<open>
  \<^verbatim>\<open>df.fillna(0, inplace=True)\<close>: every missing value of every column becomes the
  number 0, whatever the column holds.
\<close>

fun fill_cell :: "cell \<Rightarrow> cell" where
  "fill_cell NaN = Num 0"
| "fill_cell c = c"

fun fill_num :: "rat option \<Rightarrow> rat option" where
  "fill_num None = Some 0"
| "fill_num (Some v) = Some v"

definition fill_row :: "cell row \<Rightarrow> cell row" where
  "fill_row r =
     \<lparr> match_id = fill_cell (match_id r),
       over = fill_num (over r),
       ball_number = fill_num (ball_number r),
       batter = fill_cell (batter r),
       bowler = fill_cell (bowler r),
       runs_batter = fill_num (runs_batter r),
       pressure_index = fill_num (pressure_index r),
       batter_strike_rate = fill_num (batter_strike_rate r),
       bowler_economy = fill_num (bowler_economy r),
       other = map (\<lambda>(c, v). (c, fill_cell v)) (other r) \<rparr>"

definition fillna :: "cell row list \<Rightarrow> cell row list" where
  "fillna df = map fill_row df"

section \<open>Categorical columns\<close>

text \<open>
  The order in which pandas sorts the values of a column that holds numbers and
  texts: numbers first, by value; then texts, by code point; a missing value last.
\<close>

definition cell_key :: "cell \<Rightarrow> nat \<times> rat \<times> string" where
  "cell_key c = (case c of Num q \<Rightarrow> (0, q, []) | Str s \<Rightarrow> (1, 0, s) | NaN \<Rightarrow> (2, 0, []))"

text \<open>
  \<^verbatim>\<open>astype('category')\<close>: the categories of a column are its distinct values that
  are not missing, sorted; a value is stored as the position of its category, a
  missing value as no code (pandas writes -1).
\<close>

definition categories_of :: "cell list \<Rightarrow> cell list" where
  "categories_of vs = sort_key cell_key (remdups (filter (\<lambda>v. v \<noteq> NaN) vs))"

fun index_of :: "'a list \<Rightarrow> 'a \<Rightarrow> nat" where
  "index_of [] v = 0"
| "index_of (x # xs) v = (if x = v then 0 else Suc (index_of xs v))"

definition encode :: "cell list \<Rightarrow> cell \<Rightarrow> nat option" where
  "encode cats v = (if v \<in> set cats then Some (index_of cats v) else None)"

definition decode :: "cell list \<Rightarrow> nat option \<Rightarrow> cell" where
  "decode cats c =
     (case c of None \<Rightarrow> NaN | Some i \<Rightarrow> if i < length cats then cats ! i else NaN)"

definition map_ids :: "('a \<Rightarrow> 'b) \<Rightarrow> ('a \<Rightarrow> 'b) \<Rightarrow> 'a row \<Rightarrow> 'b row" where
  "map_ids f g r =
     \<lparr> match_id = match_id r,
       over = over r,
       ball_number = ball_number r,
       batter = f (batter r),
       bowler = g (bowler r),
       runs_batter = runs_batter r,
       pressure_index = pressure_index r,
       batter_strike_rate = batter_strike_rate r,
       bowler_economy = bowler_economy r,
       other = other r \<rparr>"

text \<open>
  The data frame once the two identifier columns are categorical: the categories of
  each, and the rows with codes in the two columns.
\<close>

record 'r frame =
  batter_categories :: "cell list"
  bowler_categories :: "cell list"
  rows :: "'r list"

definition astype_category :: "cell row list \<Rightarrow> (nat option row) frame" where
  "astype_category df =
     (let bc = categories_of (map batter df);
          wc = categories_of (map bowler df)
      in \<lparr> batter_categories = bc, bowler_categories = wc,
           rows = map (map_ids (encode bc) (encode wc)) df \<rparr>)"

section \<open>Clusterer\<close>

definition n_clusters :: nat where
  "n_clusters = 4"

definition features :: "('id, 'm) row_scheme \<Rightarrow> rat option list" where
  "features r = [over r, ball_number r, pressure_index r, bowler_economy r]"

text \<open>
  \<^verbatim>\<open>StandardScaler().fit_transform\<close> and \<^verbatim>\<open>KMeans(n_clusters=4, random_state=42)\<close>
  fit four centres to the scaled feature matrix and label each row with the number
  of the nearest centre. How the centres are found (scaling, seeding with 42, the
  iterations) is the parameter \<open>km\<close>: \<open>km X k x\<close> is the distance of row \<open>x\<close> from
  centre \<open>k\<close> after fitting on the matrix \<open>X\<close>. The label is the first centre among
  \<open>0 ..< n_clusters\<close> at the least distance. Both library calls refuse a matrix with
  a missing value or with no row, and KMeans refuses fewer rows than clusters.
\<close>

type_synonym kmeans = "rat list list \<Rightarrow> nat \<Rightarrow> rat list \<Rightarrow> rat"

definition nearest :: "(nat \<Rightarrow> rat) \<Rightarrow> nat" where
  "nearest d = fold (\<lambda>k best. if d k < d best then k else best) [1..<n_clusters] 0"

definition fit_predict :: "kmeans \<Rightarrow> rat option list list \<Rightarrow> exn + nat list" where
  "fit_predict km F =
     (if list_ex (\<lambda>x. list_ex (\<lambda>v. v = None) x) F
        then Inl (ValueError ''Input contains NaN'')
      else if F = []
        then Inl (ValueError ''Found array with 0 sample(s)'')
      else if length F < n_clusters
        then Inl (ValueError ''n_samples should be >= n_clusters'')
      else let X = map (map the) F
           in Inr (map (\<lambda>x. nearest (\<lambda>k. km X k x)) X))"

text \<open>
  \<^verbatim>\<open>df['delivery_type'] = kmeans.fit_predict(X_scaled)\<close>: each row gets its label.
\<close>

definition add_delivery_type :: "kmeans \<Rightarrow> ('id, 'm) row_scheme list \<Rightarrow>
    exn + (('id, 'm) row_scheme \<times> nat) list" where
  "add_delivery_type km rs =
     (case fit_predict km (map features rs) of
        Inl e \<Rightarrow> Inl e
      | Inr ls \<Rightarrow> Inr (zip rs ls))"

definition cluster :: "kmeans \<Rightarrow> (nat option row) frame \<Rightarrow>
    exn + (nat option row \<times> nat) frame" where
  "cluster km df =
     (case add_delivery_type km (rows df) of
        Inl e \<Rightarrow> Inl e
      | Inr rs \<Rightarrow> Inr \<lparr> batter_categories = batter_categories df,
                         bowler_categories = bowler_categories df,
                         rows = rs \<rparr>)"

text \<open>Lines 16 to 34 of the script: the table the aggregations read.\<close>

definition prepare :: "(nat \<Rightarrow> nat) \<Rightarrow> kmeans \<Rightarrow> cell row list \<Rightarrow> match_row list \<Rightarrow>
    exn + (nat option row \<times> nat) frame" where
  "prepare rng km delivery_df match_df =
     cluster km (astype_category (fillna (sample rng (merge delivery_df match_df))))"

text \<open>The batter and the bowler of a row of the table with categorical columns.\<close>

definition batter_value :: "('r, 'm) frame_scheme \<Rightarrow> nat option row \<times> nat \<Rightarrow> cell" where
  "batter_value df r = decode (batter_categories df) (batter (fst r))"

definition bowler_value :: "('r, 'm) frame_scheme \<Rightarrow> nat option row \<times> nat \<Rightarrow> cell" where
  "bowler_value df r = decode (bowler_categories df) (bowler (fst r))"

section \<open>Aggregator\<close>

text \<open>
  The reductions of a column skip the missing values, as pandas does: \<open>sum\<close> adds
  the values present, \<open>count\<close> counts them, \<open>mean\<close> is their sum by their count and
  is missing when none is present.
\<close>

fun present :: "rat option list \<Rightarrow> rat list" where
  "present [] = []"
| "present (None # vs) = present vs"
| "present (Some v # vs) = v # present vs"

definition col_sum :: "rat option list \<Rightarrow> rat" where
  "col_sum vs = sum_list (present vs)"

definition col_count :: "rat option list \<Rightarrow> nat" where
  "col_count vs = length (present vs)"

definition col_mean :: "rat option list \<Rightarrow> rat option" where
  "col_mean vs =
     (if present vs = [] then None
      else Some (sum_list (present vs) / of_nat (length (present vs))))"

text \<open>
  \<^verbatim>\<open>groupby\<close>: the keys of the groups are the distinct keys of the rows, a missing
  key dropped, in sorted order. \<open>isna\<close> says which keys are missing and \<open>ord\<close> gives
  the order; both depend on how the key column is represented.
\<close>

definition group_keys :: "('g \<Rightarrow> bool) \<Rightarrow> ('g \<Rightarrow> 'k::linorder) \<Rightarrow> 'g list \<Rightarrow> 'g list" where
  "group_keys isna ord gs = sort_key ord (remdups (filter (\<lambda>g. \<not> isna g) gs))"

record batter_stat =
  bs_batter :: cell
  bs_delivery_type :: nat
  total_runs :: rat
  avg_runs :: "rat option"
  balls_faced :: nat
  avg_strike_rate :: "rat option"

text \<open>
  Lines 37 to 44: group by batter and delivery type; sum and mean of
  \<open>runs_batter\<close>, count of \<open>ball_number\<close>, mean of \<open>batter_strike_rate\<close>. \<open>dec\<close> gives the
  value that a key of the batter column stands for.
\<close>

definition batter_group :: "('id row \<times> nat) list \<Rightarrow> 'id \<Rightarrow> nat \<Rightarrow> 'id row list" where
  "batter_group rs b l = map fst (filter (\<lambda>r. batter (fst r) = b \<and> snd r = l) rs)"

definition batter_stat_of ::
    "('id \<Rightarrow> cell) \<Rightarrow> ('id row \<times> nat) list \<Rightarrow> 'id \<Rightarrow> nat \<Rightarrow> batter_stat" where
  "batter_stat_of dec rs b l =
     \<lparr> bs_batter = dec b,
       bs_delivery_type = l,
       total_runs = col_sum (map runs_batter (batter_group rs b l)),
       avg_runs = col_mean (map runs_batter (batter_group rs b l)),
       balls_faced = col_count (map ball_number (batter_group rs b l)),
       avg_strike_rate = col_mean (map batter_strike_rate (batter_group rs b l)) \<rparr>"

definition batter_stats_by ::
    "('id \<Rightarrow> bool) \<Rightarrow> ('id \<Rightarrow> 'k::linorder) \<Rightarrow> ('id \<Rightarrow> cell) \<Rightarrow>
     ('id row \<times> nat) list \<Rightarrow> batter_stat list" where
  "batter_stats_by isna ord dec rs =
     map (\<lambda>(b, l). batter_stat_of dec rs b l)
         (group_keys (\<lambda>(b, l). isna b) (\<lambda>(b, l). (ord b, l))
            (map (\<lambda>r. (batter (fst r), snd r)) rs))"

definition batter_stats :: "(nat option row \<times> nat) frame \<Rightarrow> batter_stat list" where
  "batter_stats df =
     batter_stats_by (\<lambda>c. c = None) the (decode (batter_categories df)) (rows df)"

text \<open>
  Line 47: the sizes of the groups by bowler and delivery type, then \<open>unstack\<close>: one
  row for each bowler, one column for each delivery type that has a group, 0 where
  a bowler has no group of that type.
\<close>

record trends =
  columns :: "nat list"
  counts :: "(cell \<times> nat list) list"

definition bowler_trends_by ::
    "('id \<Rightarrow> bool) \<Rightarrow> ('id \<Rightarrow> 'k::linorder) \<Rightarrow> ('id \<Rightarrow> cell) \<Rightarrow>
     ('id row \<times> nat) list \<Rightarrow> trends" where
  "bowler_trends_by isna ord dec rs =
     (let ks = group_keys (\<lambda>(b, l). isna b) (\<lambda>(b, l). (ord b, l))
                 (map (\<lambda>r. (bowler (fst r), snd r)) rs);
          size = (\<lambda>k. length (filter (\<lambda>r. (bowler (fst r), snd r) = k) rs));
          cols = sort (remdups (map snd ks))
      in \<lparr> columns = cols,
           counts = map (\<lambda>b. (dec b,
                              map (\<lambda>l. if (b, l) \<in> set ks then size (b, l) else 0) cols))
                        (remdups (map fst ks)) \<rparr>)"

definition bowler_trends :: "(nat option row \<times> nat) frame \<Rightarrow> trends" where
  "bowler_trends df =
     bowler_trends_by (\<lambda>c. c = None) the (decode (bowler_categories df)) (rows df)"

text \<open>Line 50: the mean of \<open>bowler_economy\<close> for each bowler.\<close>

definition bowler_economy_by ::
    "('id \<Rightarrow> bool) \<Rightarrow> ('id \<Rightarrow> 'k::linorder) \<Rightarrow> ('id \<Rightarrow> cell) \<Rightarrow>
     ('id row \<times> nat) list \<Rightarrow> (cell \<times> rat option) list" where
  "bowler_economy_by isna ord dec rs =
     map (\<lambda>b. (dec b,
                col_mean (map (bowler_economy \<circ> fst) (filter (\<lambda>r. bowler (fst r) = b) rs))))
         (group_keys isna ord (map (bowler \<circ> fst) rs))"

definition bowler_economy_table :: "(nat option row \<times> nat) frame \<Rightarrow> (cell \<times> rat option) list" where
  "bowler_economy_table df =
     bowler_economy_by (\<lambda>c. c = None) the (decode (bowler_categories df)) (rows df)"

text \<open>
  The script without lines 25 and 26, to compare with: the identifier columns stay
  as they were read, the groups are keyed and sorted by the values themselves, and
  a missing identifier is dropped by \<^verbatim>\<open>groupby\<close>.
\<close>

definition prepare_plain :: "(nat \<Rightarrow> nat) \<Rightarrow> kmeans \<Rightarrow> cell row list \<Rightarrow> match_row list \<Rightarrow>
    exn + (cell row \<times> nat) list" where
  "prepare_plain rng km delivery_df match_df =
     add_delivery_type km (fillna (sample rng (merge delivery_df match_df)))"

definition batter_stats_plain :: "(cell row \<times> nat) list \<Rightarrow> batter_stat list" where
  "batter_stats_plain rs = batter_stats_by (\<lambda>c. c = NaN) cell_key id rs"

definition bowler_trends_plain :: "(cell row \<times> nat) list \<Rightarrow> trends" where
  "bowler_trends_plain rs = bowler_trends_by (\<lambda>c. c = NaN) cell_key id rs"

definition bowler_economy_plain :: "(cell row \<times> nat) list \<Rightarrow> (cell \<times> rat option) list" where
  "bowler_economy_plain rs = bowler_economy_by (\<lambda>c. c = NaN) cell_key id rs"

section \<open>Exporter\<close>

text \<open>
  What the script leaves behind: the files it wrote, by name, and the lines it
  printed. A run ends normally or with an exception that nothing caught.
\<close>

datatype content =
    BatterCsv "batter_stat list"
  | TrendsCsv trends
  | EconomyCsv "(cell \<times> rat option) list"
  | Png string

record world =
  files :: "string \<rightharpoonup> content"
  stdout :: "string list"

datatype outcome = Normal | Uncaught exn

definition to_csv :: "string \<Rightarrow> content \<Rightarrow> world \<Rightarrow> world" where
  "to_csv name c w = w\<lparr>files := (files w)(name \<mapsto> c)\<rparr>"

definition print :: "string \<Rightarrow> world \<Rightarrow> world" where
  "print line w = w\<lparr>stdout := stdout w @ [line]\<rparr>"

definition check_mark :: string where
  "check_mark = [CHR 0xE2, CHR 0x9C, CHR 0x85]"

definition warning_sign :: string where
  "warning_sign = [CHR 0xE2, CHR 0x9A, CHR 0xA0, CHR 0xEF, CHR 0xB8, CHR 0x8F]"

text \<open>Lines 53 to 57.\<close>

definition export :: "(nat option row \<times> nat) frame \<Rightarrow> world \<Rightarrow> world" where
  "export df w =
     print (check_mark @ '' Analysis complete. CSVs saved.'')
       (to_csv ''output_bowler_economy.csv'' (EconomyCsv (bowler_economy_table df))
         (to_csv ''output_bowler_trends.csv'' (TrendsCsv (bowler_trends df))
           (to_csv ''output_batter_patterns.csv'' (BatterCsv (batter_stats df)) w)))"

section \<open>Visualizer\<close>

text \<open>
  Lines 61 to 66: the total of \<open>total_runs\<close> for each batter of the batter table, and
  the batters of the 20 largest totals (\<open>nlargest\<close> keeps the first of equal totals).
\<close>

definition top_batters :: "batter_stat list \<Rightarrow> cell list" where
  "top_batters bs =
     (let totals = map (\<lambda>b. (b, sum_list (map total_runs (filter (\<lambda>s. bs_batter s = b) bs))))
                       (group_keys (\<lambda>c. c = NaN) cell_key (map bs_batter bs))
      in map fst (take 20 (sort_key (\<lambda>(b, t). - t) totals)))"

text \<open>Line 70: \<^verbatim>\<open>clip(upper=250)\<close>; a missing value stays missing.\<close>

definition clip :: "rat \<Rightarrow> rat option \<Rightarrow> rat option" where
  "clip upper v = (case v of None \<Rightarrow> None | Some x \<Rightarrow> Some (if upper < x then upper else x))"

text \<open>Lines 67 to 70.\<close>

definition top_batter_stats :: "batter_stat list \<Rightarrow> batter_stat list" where
  "top_batter_stats bs =
     map (\<lambda>s. s\<lparr>avg_strike_rate := clip 250 (avg_strike_rate s)\<rparr>)
         (filter (\<lambda>s. bs_batter s \<in> set (top_batters bs)) bs)"

text \<open>
  Line 72: \<^verbatim>\<open>pivot(index="batter", columns="delivery_type", values="avg_strike_rate")\<close>
  raises \<open>ValueError\<close> when two rows have the same batter and delivery type; the
  matrix has a missing value where no row has the pair.
\<close>

record pivot_table =
  p_index :: "cell list"
  p_columns :: "nat list"
  p_values :: "rat option list list"

definition pivot :: "batter_stat list \<Rightarrow> exn + pivot_table" where
  "pivot t =
     (let ks = map (\<lambda>s. (bs_batter s, bs_delivery_type s)) t
      in if \<not> distinct ks
           then Inl (ValueError ''Index contains duplicate entries, cannot reshape'')
         else
           let idx = sort_key cell_key (remdups (map fst ks));
               cols = sort (remdups (map snd ks))
           in Inr \<lparr> p_index = idx, p_columns = cols,
                    p_values =
                      map (\<lambda>b. map (\<lambda>l. case find (\<lambda>s. bs_batter s = b \<and> bs_delivery_type s = l) t of
                                           None \<Rightarrow> None
                                         | Some s \<Rightarrow> avg_strike_rate s) cols) idx \<rparr>)"

text \<open>
  The plotting calls of each chart step (lines 74 to 83, lines 91 to 126) are a
  parameter: from the table they are given they produce the bytes of the image
  file, or raise.
\<close>

definition heatmap_body :: "(pivot_table \<Rightarrow> exn + string) \<Rightarrow> batter_stat list \<Rightarrow> exn + string" where
  "heatmap_body plot bs =
     (case pivot (top_batter_stats bs) of
        Inl e \<Rightarrow> Inl e
      | Inr p \<Rightarrow> plot p)"

text \<open>
  Line 90: selecting the columns 0 to 3 raises \<open>KeyError\<close> when one of them is not
  a column of the table; the message lists the labels that are missing, or says
  that none of the four is a column. \<open>total\<close> is their sum for each bowler. Sorting
  by it, keeping 20 rows and reshaping them belong to the plotting parameter of the
  step.
\<close>

fun comma_separated :: "string list \<Rightarrow> string" where
  "comma_separated [] = []"
| "comma_separated [t] = t"
| "comma_separated (t # ts) = t @ '', '' @ comma_separated ts"

definition with_total :: "trends \<Rightarrow> exn + (cell \<times> nat list \<times> nat) list" where
  "with_total bt =
     (let missing = filter (\<lambda>(l, t). l \<notin> set (columns bt))
                      [(0, ''0''), (1, ''1''), (2, ''2''), (3, ''3'')]
      in if missing = []
           then Inr (map (\<lambda>(b, cs).
                            let four = map (\<lambda>l. cs ! index_of (columns bt) l) [0, 1, 2, 3]
                            in (b, four, sum_list four))
                         (counts bt))
         else if length missing = 4
           then Inl (KeyError (''None of [Index([0, 1, 2, 3], dtype='' @ [CHR 0x27] @ ''int64''
                               @ [CHR 0x27] @ '')] are in the [columns]''))
         else Inl (KeyError (''['' @ comma_separated (map snd missing) @ ''] not in index'')))"

definition bar_chart_body ::
    "((cell \<times> nat list \<times> nat) list \<Rightarrow> exn + string) \<Rightarrow> trends \<Rightarrow> exn + string" where
  "bar_chart_body plot bt =
     (case with_total bt of
        Inl e \<Rightarrow> Inl e
      | Inr t \<Rightarrow> plot t)"

text \<open>
  \<^verbatim>\<open>try: ... except Exception as e: print(message, e)\<close> around a chart step: the
  image is written when the step succeeds; an exception that is an \<open>Exception\<close> is
  printed after the message and the run goes on; any other ends the run.
\<close>

definition try_chart :: "string \<Rightarrow> string \<Rightarrow> exn + string \<Rightarrow> world \<Rightarrow> outcome \<times> world" where
  "try_chart message name body w =
     (case body of
        Inr img \<Rightarrow> (Normal, w\<lparr>files := (files w)(name \<mapsto> Png img)\<rparr>)
      | Inl e \<Rightarrow>
          if isinstance_Exception e
            then (Normal, print (message @ '' '' @ str e) w)
          else (Uncaught e, w))"

definition heatmap_step ::
    "(pivot_table \<Rightarrow> exn + string) \<Rightarrow> batter_stat list \<Rightarrow> world \<Rightarrow> outcome \<times> world" where
  "heatmap_step plot bs w =
     try_chart (warning_sign @ '' Strike rate heatmap generation failed:'')
       ''batter_strike_rate_heatmap_top20.png'' (heatmap_body plot bs) w"

definition bar_chart_step ::
    "((cell \<times> nat list \<times> nat) list \<Rightarrow> exn + string) \<Rightarrow> trends \<Rightarrow> world \<Rightarrow> outcome \<times> world" where
  "bar_chart_step plot bt w =
     try_chart (warning_sign @ '' Horizontal bar chart generation failed:'')
       ''bowler_delivery_distribution_top20.png'' (bar_chart_body plot bt) w"

text \<open>Lines 59 to 129: the two chart steps, one after the other.\<close>

definition visualize ::
    "(pivot_table \<Rightarrow> exn + string) \<Rightarrow> ((cell \<times> nat list \<times> nat) list \<Rightarrow> exn + string) \<Rightarrow>
     batter_stat list \<Rightarrow> trends \<Rightarrow> world \<Rightarrow> outcome \<times> world" where
  "visualize plot_h plot_b bs bt w =
     (case heatmap_step plot_h bs w of
        (Uncaught e, w') \<Rightarrow> (Uncaught e, w')
      | (Normal, w') \<Rightarrow> bar_chart_step plot_b bt w')"

text \<open>The whole script, from the two tables as loaded.\<close>

definition run ::
    "(nat \<Rightarrow> nat) \<Rightarrow> kmeans \<Rightarrow> (pivot_table \<Rightarrow> exn + string) \<Rightarrow>
     ((cell \<times> nat list \<times> nat) list \<Rightarrow> exn + string) \<Rightarrow>
     cell row list \<Rightarrow> match_row list \<Rightarrow> world \<Rightarrow> outcome \<times> world" where
  "run rng km plot_h plot_b delivery_df match_df w =
     (case prepare rng km delivery_df match_df of
        Inl e \<Rightarrow> (Uncaught e, w)
      | Inr df \<Rightarrow>
          visualize plot_h plot_b (batter_stats df) (bowler_trends df) (export df w))"

section \<open>Two small inputs\<close>

definition delivery ::
    "rat \<Rightarrow> rat \<Rightarrow> rat \<Rightarrow> cell \<Rightarrow> cell \<Rightarrow> rat \<Rightarrow> rat option \<Rightarrow> rat \<Rightarrow> cell row" where
  "delivery m ov ball bat bowl runs rate economy =
     \<lparr> match_id = Num m,
       over = Some ov,
       ball_number = Some ball,
       batter = bat,
       bowler = bowl,
       runs_batter = Some runs,
       pressure_index = Some (1 / 2),
       batter_strike_rate = rate,
       bowler_economy = Some economy,
       other = [] \<rparr>"

text \<open>
  Thirteen deliveries of one match, six to an over; every fifth batter is missing
  and every third strike rate. The second match has no delivery.
\<close>

definition ex_deliveries :: "cell row list" where
  "ex_deliveries =
     [delivery 1 0 1 (NaN) (Str ''Starc'') 0 (Some 0) 6,
      delivery 1 0 2 (Str ''Root'') (Str ''Starc'') 1 (Some 100) 7,
      delivery 1 0 3 (Str ''Kohli'') (Str ''Starc'') 2 None 6,
      delivery 1 0 4 (Str ''Root'') (Str ''Starc'') 3 (Some 300) 7,
      delivery 1 0 5 (Str ''Kohli'') (Str ''Starc'') 4 (Some 400) 6,
      delivery 1 0 6 (NaN) (Str ''Starc'') 5 None 7,
      delivery 1 1 1 (Str ''Kohli'') (Str ''Bumrah'') 6 (Some 600) 6,
      delivery 1 1 2 (Str ''Root'') (Str ''Bumrah'') 0 (Some 700) 7,
      delivery 1 1 3 (Str ''Kohli'') (Str ''Bumrah'') 1 None 6,
      delivery 1 1 4 (Str ''Root'') (Str ''Bumrah'') 2 (Some 900) 7,
      delivery 1 1 5 (NaN) (Str ''Bumrah'') 3 (Some 1000) 6,
      delivery 1 1 6 (Str ''Root'') (Str ''Bumrah'') 4 None 7,
      delivery 1 2 1 (Str ''Kohli'') (Str ''Bumrah'') 5 (Some 1200) 6]"

definition ex_matches :: "match_row list" where
  "ex_matches =
     [\<lparr> m_match_id = Num 1, m_info = [(''venue'', NaN)] \<rparr>,
      \<lparr> m_match_id = Num 2, m_info = [(''venue'', Str ''Lords'')] \<rparr>]"

text \<open>
  A generator: its numbers for the steps 0 to 12. They shuffle \<open>0 ..< 13\<close> into
  2, 4, 0, 7, 1, 3, 5, 6, 8, 9, 10, 11, 12.
\<close>

definition ex_rng :: "nat \<Rightarrow> nat" where
  "ex_rng i = (if i < 13 then [0, 1, 3, 7, 6, 9, 12, 14, 17, 19, 21, 23, 25] ! i else 0)"

text \<open>Centre \<open>k\<close> lies at over \<open>k\<close>: the distance is the difference of the overs.\<close>

definition ex_km :: kmeans where
  "ex_km X k x = \<bar>hd x - of_nat k\<bar>"

text \<open>Centres at the balls 1, 2, 3 and 5 of an over: the distance is the difference of the balls.\<close>

definition ball_km :: kmeans where
  "ball_km X k x = \<bar>x ! 1 - [1, 2, 3, 5] ! k\<bar>"

text \<open>The table that lines 16 to 34 make of these.\<close>

definition coded ::
    "rat \<Rightarrow> rat \<Rightarrow> nat \<Rightarrow> nat \<Rightarrow> rat \<Rightarrow> rat \<Rightarrow> rat \<Rightarrow> nat option row" where
  "coded ov ball bat bowl runs rate economy =
     \<lparr> match_id = Num 1,
       over = Some ov,
       ball_number = Some ball,
       batter = Some bat,
       bowler = Some bowl,
       runs_batter = Some runs,
       pressure_index = Some (1 / 2),
       batter_strike_rate = Some rate,
       bowler_economy = Some economy,
       other = [(''venue'', Num 0)] \<rparr>"

definition ex_frame :: "(nat option row \<times> nat) frame" where
  "ex_frame =
     \<lparr> batter_categories = [Num 0, Str ''Kohli'', Str ''Root''],
       bowler_categories = [Str ''Bumrah'', Str ''Starc''],
       rows = [(coded 0 3 1 1 2 0 6, 0),
               (coded 0 5 1 1 4 400 6, 0),
               (coded 0 1 0 1 0 0 6, 0),
               (coded 1 2 2 0 0 700 7, 1)] \<rparr>"

text \<open>
  The first ball of thirteen matches, with the same four features: the points to
  cluster coincide, so every centre is at the same distance of every row.
\<close>

definition flat_deliveries :: "cell row list" where
  "flat_deliveries =
     [delivery 0 0 1 (Str ''Kohli'') (Str ''Starc'') 0 (Some 0) 0,
      delivery 1 0 1 (Str ''Kohli'') (Str ''Bumrah'') 1 (Some 0) 0,
      delivery 2 0 1 (Str ''Kohli'') (Str ''Starc'') 2 (Some 0) 0,
      delivery 3 0 1 (Str ''Kohli'') (Str ''Bumrah'') 3 (Some 0) 0,
      delivery 4 0 1 (Str ''Kohli'') (Str ''Starc'') 4 (Some 0) 0,
      delivery 5 0 1 (Str ''Kohli'') (Str ''Bumrah'') 5 (Some 0) 0,
      delivery 6 0 1 (Str ''Kohli'') (Str ''Starc'') 6 (Some 0) 0,
      delivery 7 0 1 (Str ''Kohli'') (Str ''Bumrah'') 0 (Some 0) 0,
      delivery 8 0 1 (Str ''Kohli'') (Str ''Starc'') 1 (Some 0) 0,
      delivery 9 0 1 (Str ''Kohli'') (Str ''Bumrah'') 2 (Some 0) 0,
      delivery 10 0 1 (Str ''Kohli'') (Str ''Starc'') 3 (Some 0) 0,
      delivery 11 0 1 (Str ''Kohli'') (Str ''Bumrah'') 4 (Some 0) 0,
      delivery 12 0 1 (Str ''Kohli'') (Str ''Starc'') 5 (Some 0) 0]"

definition flat_matches :: "match_row list" where
  "flat_matches =
     [\<lparr> m_match_id = Num 0, m_info = [] \<rparr>,
      \<lparr> m_match_id = Num 1, m_info = [] \<rparr>,
      \<lparr> m_match_id = Num 2, m_info = [] \<rparr>,
      \<lparr> m_match_id = Num 3, m_info = [] \<rparr>,
      \<lparr> m_match_id = Num 4, m_info = [] \<rparr>,
      \<lparr> m_match_id = Num 5, m_info = [] \<rparr>,
      \<lparr> m_match_id = Num 6, m_info = [] \<rparr>,
      \<lparr> m_match_id = Num 7, m_info = [] \<rparr>,
      \<lparr> m_match_id = Num 8, m_info = [] \<rparr>,
      \<lparr> m_match_id = Num 9, m_info = [] \<rparr>,
      \<lparr> m_match_id = Num 10, m_info = [] \<rparr>,
      \<lparr> m_match_id = Num 11, m_info = [] \<rparr>,
      \<lparr> m_match_id = Num 12, m_info = [] \<rparr>]"

definition flat_km :: kmeans where
  "flat_km X k x = 0"

text \<open>
  Plotting calls for the examples: one that draws, one that fails as seaborn does
  on an empty matrix, one that is interrupted from the keyboard; the table that
  lines 16 to 34 make of the thirteen deliveries under \<open>ball_km\<close>; and the world
  before the script runs.
\<close>

definition drawn_heatmap :: "pivot_table \<Rightarrow> exn + string" where
  "drawn_heatmap p = Inr ''heatmap''"

definition failing_heatmap :: "pivot_table \<Rightarrow> exn + string" where
  "failing_heatmap p = Inl (ValueError ''zero-size array to reduction operation'')"

definition interrupted_heatmap :: "pivot_table \<Rightarrow> exn + string" where
  "interrupted_heatmap p = Inl KeyboardInterrupt"

definition drawn_bars :: "(cell \<times> nat list \<times> nat) list \<Rightarrow> exn + string" where
  "drawn_bars t = Inr ''bars''"

definition ball_frame :: "(nat option row \<times> nat) frame" where
  "ball_frame =
     \<lparr> batter_categories = [Num 0, Str ''Kohli'', Str ''Root''],
       bowler_categories = [Str ''Bumrah'', Str ''Starc''],
       rows = [(coded 0 3 1 1 2 0 6, 2),
               (coded 0 5 1 1 4 400 6, 3),
               (coded 0 1 0 1 0 0 6, 0),
               (coded 1 2 2 0 0 700 7, 1)] \<rparr>"

definition empty_world :: world where
  "empty_world = \<lparr> files = Map.empty, stdout = [] \<rparr>"

section \<open>The sample\<close>

lemma py_round_le_ceiling: "py_round x \<le> \<lceil>x\<rceil>"
proof -
  have "\<lfloor>x\<rfloor> \<le> \<lceil>x\<rceil>" by (rule floor_le_ceiling)
  moreover have "\<lceil>x\<rceil> = \<lfloor>x\<rfloor> + 1" if "0 < x - of_int \<lfloor>x\<rfloor>"
    using that by (simp add: ceiling_altdef)
  ultimately show ?thesis
    by (auto simp: py_round_def Let_def)
qed

text \<open>Python's \<open>round\<close> gives the nearest integer, and the even one of two nearest.\<close>

lemma py_round_nearest:
  "\<bar>of_int (py_round x) - x\<bar> \<le> 1 / 2"
  "\<bar>of_int (py_round x) - x\<bar> = 1 / 2 \<Longrightarrow> even (py_round x)"
proof -
  define f where "f = \<lfloor>x\<rfloor>"
  define d where "d = x - of_int f"
  have x: "x = of_int f + d" by (simp add: d_def)
  from floor_correct [of x] have d: "0 \<le> d" "d < 1"
    by (simp_all add: d_def f_def)
  have p: "py_round x =
      (if d < 1 / 2 then f else if 1 / 2 < d then f + 1 else if even f then f else f + 1)"
    by (simp add: py_round_def Let_def f_def d_def)
  have g: "\<bar>of_int r - (of_int f + d)\<bar> \<le> 1 / 2"
    if "r = (if d < 1 / 2 then f else if 1 / 2 < d then f + 1 else if even f then f else f + 1)"
    for r
    using that d by (auto simp: abs_if)
  have h: "even r"
    if "r = (if d < 1 / 2 then f else if 1 / 2 < d then f + 1 else if even f then f else f + 1)"
      and "\<bar>of_int r - (of_int f + d)\<bar> = 1 / 2"
    for r
    using that d by (auto simp: abs_if split: if_splits)
  from g [OF p] show "\<bar>of_int (py_round x) - x\<bar> \<le> 1 / 2"
    by (simp only: x [symmetric])
  assume "\<bar>of_int (py_round x) - x\<bar> = 1 / 2"
  then have "\<bar>of_int (py_round x) - (of_int f + d)\<bar> = 1 / 2"
    by (simp only: x [symmetric])
  from h [OF p this] show "even (py_round x)" .
qed

lemma sample_size_le: "sample_size n \<le> n"
proof -
  have "sample_frac * of_nat n \<le> (of_nat n :: rat)"
    by (simp add: sample_frac_def mult_left_le_one_le)
  then have "\<lceil>sample_frac * of_nat n\<rceil> \<le> int n"
    by (simp add: ceiling_le_iff)
  with py_round_le_ceiling [of "sample_frac * of_nat n"] show ?thesis
    by (simp add: sample_size_def)
qed

text \<open>Shuffling rearranges: the generator decides the order, never the content.\<close>

lemma exchange_props:
  assumes "i < length xs" and "j < length xs"
  shows "length (exchange i j xs) = length xs"
    and "set (exchange i j xs) = set xs"
    and "distinct (exchange i j xs) = distinct xs"
  using assms by (simp_all add: exchange_def set_swap distinct_swap)

lemma shuffle_props:
  "i < length xs \<Longrightarrow>
     length (shuffle rng i xs) = length xs \<and> set (shuffle rng i xs) = set xs
     \<and> distinct (shuffle rng i xs) = distinct xs"
proof (induction i arbitrary: xs)
  case 0
  then show ?case by simp
next
  case (Suc i)
  let ?j = "rng (Suc i) mod Suc (Suc i)"
  have j: "?j < length xs"
    using Suc.prems mod_less_divisor [of "Suc (Suc i)" "rng (Suc i)"] by linarith
  note e = exchange_props [OF Suc.prems j]
  from Suc.prems e(1) have "i < length (exchange (Suc i) ?j xs)" by simp
  from Suc.IH [OF this] e show ?case by simp
qed

lemma permutation_props:
  "length (permutation rng n) = n"
  "set (permutation rng n) = {0..<n}"
  "distinct (permutation rng n)"
proof -
  have "length (permutation rng n) = n \<and> set (permutation rng n) = {0..<n}
        \<and> distinct (permutation rng n)"
  proof (cases n)
    case 0
    then show ?thesis by (simp add: permutation_def)
  next
    case (Suc m)
    then have "n - 1 < length [0..<n]" by simp
    from shuffle_props [OF this, of rng] show ?thesis
      by (simp add: permutation_def)
  qed
  then show "length (permutation rng n) = n" "set (permutation rng n) = {0..<n}"
    "distinct (permutation rng n)"
    by simp_all
qed

lemma positions_props:
  "length (positions rng n) = sample_size n"
  "distinct (positions rng n)"
  "set (positions rng n) \<subseteq> {0..<n}"
proof -
  show "length (positions rng n) = sample_size n"
    using permutation_props(1) [of rng n] sample_size_le [of n] by (simp add: positions_def)
  show "distinct (positions rng n)"
    using permutation_props(3) [of rng n] by (simp add: positions_def)
  show "set (positions rng n) \<subseteq> {0..<n}"
    using permutation_props(2) [of rng n] set_take_subset [of "sample_size n" "permutation rng n"]
    by (simp add: positions_def)
qed

text \<open>The inner join: its rows and their number.\<close>

lemma merge_length:
  "length (merge delivery_df match_df) =
     sum_list (map (\<lambda>d. length (filter (\<lambda>m. m_match_id m = match_id d) match_df)) delivery_df)"
  by (simp add: merge_def length_concat comp_def)

lemma merge_set:
  "r \<in> set (merge delivery_df match_df) \<longleftrightarrow>
     (\<exists>d \<in> set delivery_df. \<exists>m \<in> set match_df.
        m_match_id m = match_id d \<and> r = d\<lparr>other := other d @ m_info m\<rparr>)"
  by (auto simp: merge_def merge_row_def)

text \<open>
  C4. The rows of the merged table are the pairs of a delivery and a match row of
  the same \<open>match_id\<close>, the delivery with the columns of the match row added;
  their number is n. Whatever the generator yields, the sampled table has
  round(0.3 * n) rows, round being Python's: the integer nearest to 0.3 * n, the
  even one when two are nearest. The sampled rows are the rows of the merged table
  at positions that are pairwise different: no row is drawn twice.
\<close>

theorem sample_size_and_distinct:
  "length (sample rng (merge delivery_df match_df)) =
     nat (py_round (3 / 10 * of_nat (length (merge delivery_df match_df))))
   \<and> \<bar>rat_of_int (py_round (3 / 10 * of_nat (length (merge delivery_df match_df))))
        - 3 / 10 * of_nat (length (merge delivery_df match_df))\<bar> \<le> 1 / 2
   \<and> (\<bar>rat_of_int (py_round (3 / 10 * of_nat (length (merge delivery_df match_df))))
         - 3 / 10 * of_nat (length (merge delivery_df match_df))\<bar> = 1 / 2 \<longrightarrow>
        even (py_round (3 / 10 * of_nat (length (merge delivery_df match_df)))))
   \<and> sample rng (merge delivery_df match_df) =
       map (\<lambda>i. merge delivery_df match_df ! i)
           (positions rng (length (merge delivery_df match_df)))
   \<and> distinct (positions rng (length (merge delivery_df match_df)))
   \<and> (\<forall>i \<in> set (positions rng (length (merge delivery_df match_df))).
        i < length (merge delivery_df match_df))
   \<and> length (merge delivery_df match_df) =
       sum_list (map (\<lambda>d. length (filter (\<lambda>m. m_match_id m = match_id d) match_df))
                     delivery_df)
   \<and> (\<forall>r. r \<in> set (merge delivery_df match_df) \<longleftrightarrow>
            (\<exists>d \<in> set delivery_df. \<exists>m \<in> set match_df.
               m_match_id m = match_id d \<and> r = d\<lparr>other := other d @ m_info m\<rparr>))"
proof (intro conjI)
  let ?n = "length (merge delivery_df match_df)"
  show "length (sample rng (merge delivery_df match_df)) = nat (py_round (3 / 10 * of_nat ?n))"
    by (simp add: sample_def positions_props(1) sample_size_def sample_frac_def)
  show "\<bar>rat_of_int (py_round (3 / 10 * of_nat ?n)) - 3 / 10 * of_nat ?n\<bar> \<le> 1 / 2"
    by (rule py_round_nearest(1))
  show "\<bar>rat_of_int (py_round (3 / 10 * of_nat ?n)) - 3 / 10 * of_nat ?n\<bar> = 1 / 2 \<longrightarrow>
        even (py_round (3 / 10 * of_nat ?n))"
    by (rule impI) (rule py_round_nearest(2))
  show "sample rng (merge delivery_df match_df) =
       map (\<lambda>i. merge delivery_df match_df ! i) (positions rng ?n)"
    by (simp add: sample_def)
  show "distinct (positions rng ?n)" by (rule positions_props(2))
  show "\<forall>i \<in> set (positions rng ?n). i < ?n"
    using positions_props(3) [of rng ?n] by auto
  show "?n = sum_list (map (\<lambda>d. length (filter (\<lambda>m. m_match_id m = match_id d) match_df))
                     delivery_df)"
    by (rule merge_length)
  show "\<forall>r. r \<in> set (merge delivery_df match_df) \<longleftrightarrow>
            (\<exists>d \<in> set delivery_df. \<exists>m \<in> set match_df.
               m_match_id m = match_id d \<and> r = d\<lparr>other := other d @ m_info m\<rparr>)"
    using merge_set by blast
qed

theorem sample_size_and_distinct_witness:
  "length (merge ex_deliveries ex_matches) = 13
   \<and> length (sample ex_rng (merge ex_deliveries ex_matches)) = 4
   \<and> positions ex_rng (length (merge ex_deliveries ex_matches)) = [2, 4, 0, 7]
   \<and> distinct (positions ex_rng (length (merge ex_deliveries ex_matches)))
   \<and> list_all (\<lambda>i. i < length (merge ex_deliveries ex_matches))
         (positions ex_rng (length (merge ex_deliveries ex_matches)))"
proof -
  note t = sample_size_and_distinct [of ex_rng ex_deliveries ex_matches]
  have n: "length (merge ex_deliveries ex_matches) = 13"
    by code_simp
  have r: "nat (py_round (3 / 10 * of_nat (13 :: nat))) = 4"
    by code_simp
  have p: "positions ex_rng 13 = [2, 4, 0, 7]"
    by code_simp
  from t have "length (sample ex_rng (merge ex_deliveries ex_matches)) =
      nat (py_round (3 / 10 * of_nat (length (merge ex_deliveries ex_matches))))"
    by (rule conjunct1)
  then have a: "length (sample ex_rng (merge ex_deliveries ex_matches)) = 4"
    by (simp only: n r)
  from t have b: "distinct (positions ex_rng (length (merge ex_deliveries ex_matches)))"
    by blast
  from t have c: "list_all (\<lambda>i. i < length (merge ex_deliveries ex_matches))
         (positions ex_rng (length (merge ex_deliveries ex_matches)))"
    unfolding list_all_iff by blast
  from n a p b c show ?thesis by simp
qed

section \<open>Structure of the prepared table\<close>

lemma nearest_less: "nearest d < n_clusters"
  by (simp add: nearest_def n_clusters_def upt_rec)

lemma fit_predict_Inr:
  assumes "fit_predict km F = Inr ls"
  shows "length ls = length F" and "\<forall>l \<in> set ls. l < n_clusters"
    and "n_clusters \<le> length F" and "\<forall>x \<in> set F. None \<notin> set x"
  using assms nearest_less
  by (auto simp: fit_predict_def Let_def list_ex_iff split: if_splits)

lemma add_delivery_type_Inr:
  assumes "add_delivery_type km rs = Inr out"
  shows "map fst out = rs" and "\<forall>r \<in> set out. snd r < n_clusters"
    and "n_clusters \<le> length rs" and "length out = length rs"
    and "\<forall>r \<in> set rs. None \<notin> set (features r)"
proof -
  from assms obtain ls where ls: "fit_predict km (map features rs) = Inr ls"
    and out: "out = zip rs ls"
    by (auto simp: add_delivery_type_def split: sum.splits)
  from fit_predict_Inr [OF ls] have len: "length ls = length rs"
    and lab: "\<forall>l \<in> set ls. l < n_clusters" and n: "n_clusters \<le> length rs"
    and nn: "\<forall>x \<in> set (map features rs). None \<notin> set x"
    by simp_all
  from len out show "map fst out = rs" by simp
  from len out show "length out = length rs" by simp
  from lab out show "\<forall>r \<in> set out. snd r < n_clusters"
    by (auto dest: set_zip_rightD)
  from n show "n_clusters \<le> length rs" .
  from nn show "\<forall>r \<in> set rs. None \<notin> set (features r)" by simp
qed

lemma features_map_ids [simp]: "features (map_ids f g r) = features r"
  by (simp add: features_def map_ids_def)

lemma prepare_Inr:
  assumes "prepare rng km delivery_df match_df = Inr df"
  defines "P \<equiv> fillna (sample rng (merge delivery_df match_df))"
  shows "batter_categories df = categories_of (map batter P)"
    and "bowler_categories df = categories_of (map bowler P)"
    and "map fst (rows df) =
           map (map_ids (encode (batter_categories df)) (encode (bowler_categories df))) P"
    and "\<forall>r \<in> set (rows df). snd r < n_clusters"
    and "n_clusters \<le> length (rows df)"
proof -
  let ?A = "astype_category P"
  from assms(1) obtain rs where rs: "add_delivery_type km (rows ?A) = Inr rs"
    and df: "df = \<lparr> batter_categories = batter_categories ?A,
                     bowler_categories = bowler_categories ?A, rows = rs \<rparr>"
    by (auto simp: prepare_def cluster_def P_def split: sum.splits)
  from df show bc: "batter_categories df = categories_of (map batter P)"
    by (simp add: astype_category_def Let_def)
  from df show wc: "bowler_categories df = categories_of (map bowler P)"
    by (simp add: astype_category_def Let_def)
  from add_delivery_type_Inr(1) [OF rs] df bc wc
  show "map fst (rows df) =
           map (map_ids (encode (batter_categories df)) (encode (bowler_categories df))) P"
    by (simp add: astype_category_def Let_def)
  from add_delivery_type_Inr(2) [OF rs] df show "\<forall>r \<in> set (rows df). snd r < n_clusters"
    by simp
  from add_delivery_type_Inr(3,4) [OF rs] df show "n_clusters \<le> length (rows df)"
    by simp
qed

lemma fill_cell_not_NaN [simp]: "fill_cell c \<noteq> NaN"
  by (cases c) simp_all

lemma fill_num_not_None [simp]: "fill_num v \<noteq> None"
  by (cases v) simp_all

lemma fill_row_simps [simp]:
  "match_id (fill_row r) = fill_cell (match_id r)"
  "over (fill_row r) = fill_num (over r)"
  "ball_number (fill_row r) = fill_num (ball_number r)"
  "batter (fill_row r) = fill_cell (batter r)"
  "bowler (fill_row r) = fill_cell (bowler r)"
  "runs_batter (fill_row r) = fill_num (runs_batter r)"
  "pressure_index (fill_row r) = fill_num (pressure_index r)"
  "batter_strike_rate (fill_row r) = fill_num (batter_strike_rate r)"
  "bowler_economy (fill_row r) = fill_num (bowler_economy r)"
  "other (fill_row r) = map (\<lambda>(c, v). (c, fill_cell v)) (other r)"
  by (simp_all add: fill_row_def)

lemma map_ids_simps [simp]:
  "match_id (map_ids f g r) = match_id r"
  "over (map_ids f g r) = over r"
  "ball_number (map_ids f g r) = ball_number r"
  "batter (map_ids f g r) = f (batter r)"
  "bowler (map_ids f g r) = g (bowler r)"
  "runs_batter (map_ids f g r) = runs_batter r"
  "pressure_index (map_ids f g r) = pressure_index r"
  "batter_strike_rate (map_ids f g r) = batter_strike_rate r"
  "bowler_economy (map_ids f g r) = bowler_economy r"
  "other (map_ids f g r) = other r"
  by (simp_all add: map_ids_def)

lemma categories_of_set [simp]: "set (categories_of vs) = set vs - {NaN}"
  by (auto simp: categories_of_def)

lemma categories_of_distinct [simp]: "distinct (categories_of vs)"
  by (simp add: categories_of_def)

lemma categories_of_sorted: "sorted (map cell_key (categories_of vs))"
  by (simp add: categories_of_def)

lemma cell_key_inj: "cell_key a = cell_key b \<Longrightarrow> a = b"
  by (auto simp: cell_key_def split: cell.splits)

lemma index_of_less: "v \<in> set xs \<Longrightarrow> index_of xs v < length xs"
  by (induction xs) auto

lemma nth_index_of [simp]: "v \<in> set xs \<Longrightarrow> xs ! index_of xs v = v"
  by (induction xs) auto

lemma index_of_nth: "distinct xs \<Longrightarrow> i < length xs \<Longrightarrow> index_of xs (xs ! i) = i"
  by (induction xs arbitrary: i) (auto simp: nth_Cons split: nat.splits)

lemma decode_encode: "v \<in> set cats \<Longrightarrow> decode cats (encode cats v) = v"
  by (simp add: decode_def encode_def index_of_less)

lemma encode_None_iff: "encode cats v = None \<longleftrightarrow> v \<notin> set cats"
  by (simp add: encode_def)

lemma decode_inj:
  assumes "distinct cats" "i < length cats" "j < length cats"
    and "decode cats (Some i) = decode cats (Some j)"
  shows "i = j"
  using assms by (simp add: decode_def nth_eq_iff_index_eq)


lemma group_keys_set [simp]: "set (group_keys isna ord gs) = {g \<in> set gs. \<not> isna g}"
  by (auto simp: group_keys_def)

lemma group_keys_distinct [simp]: "distinct (group_keys isna ord gs)"
  by (simp add: group_keys_def)

lemma present_all: "\<forall>v \<in> set vs. v \<noteq> None \<Longrightarrow> present vs = map the vs"
  by (induction vs rule: present.induct) auto

lemma col_all:
  assumes "\<forall>x \<in> set xs. f x \<noteq> None"
  shows "col_sum (map f xs) = sum_list (map (\<lambda>x. the (f x)) xs)"
    and "col_count (map f xs) = length xs"
    and "xs \<noteq> [] \<Longrightarrow>
           col_mean (map f xs) = Some (sum_list (map (\<lambda>x. the (f x)) xs) / of_nat (length xs))"
proof -
  from assms have "present (map f xs) = map (\<lambda>x. the (f x)) xs"
    by (simp add: present_all comp_def)
  then show "col_sum (map f xs) = sum_list (map (\<lambda>x. the (f x)) xs)"
    and "col_count (map f xs) = length xs"
    and "xs \<noteq> [] \<Longrightarrow>
           col_mean (map f xs) = Some (sum_list (map (\<lambda>x. the (f x)) xs) / of_nat (length xs))"
    by (simp_all add: col_sum_def col_count_def col_mean_def)
qed

text \<open>What holds of every row of the table the aggregations read.\<close>

lemma prepare_rows:
  assumes "prepare rng km delivery_df match_df = Inr df" and "r \<in> set (rows df)"
  shows "\<exists>i < length (batter_categories df). batter (fst r) = Some i"
    and "\<exists>i < length (bowler_categories df). bowler (fst r) = Some i"
    and "runs_batter (fst r) \<noteq> None"
    and "ball_number (fst r) \<noteq> None"
    and "batter_strike_rate (fst r) \<noteq> None"
    and "bowler_economy (fst r) \<noteq> None"
    and "snd r < n_clusters"
proof -
  let ?P = "fillna (sample rng (merge delivery_df match_df))"
  note p = prepare_Inr [OF assms(1)]
  from assms(2) have "fst r \<in> set (map fst (rows df))" by simp
  with p(3) obtain q where q: "q \<in> set ?P"
    and r: "fst r = map_ids (encode (batter_categories df)) (encode (bowler_categories df)) q"
    by auto
  from q obtain q0 where q0: "q = fill_row q0" by (auto simp: fillna_def)
  from q have "batter q \<in> batter ` set ?P" by (rule imageI)
  moreover from q0 have "batter q \<noteq> NaN" by simp
  ultimately have "batter q \<in> set (batter_categories df)"
    by (simp add: p(1))
  then show "\<exists>i < length (batter_categories df). batter (fst r) = Some i"
    by (simp add: r encode_def index_of_less)
  from q have "bowler q \<in> bowler ` set ?P" by (rule imageI)
  moreover from q0 have "bowler q \<noteq> NaN" by simp
  ultimately have "bowler q \<in> set (bowler_categories df)"
    by (simp add: p(2))
  then show "\<exists>i < length (bowler_categories df). bowler (fst r) = Some i"
    by (simp add: r encode_def index_of_less)
  show "runs_batter (fst r) \<noteq> None" "ball_number (fst r) \<noteq> None"
    "batter_strike_rate (fst r) \<noteq> None" "bowler_economy (fst r) \<noteq> None"
    by (simp_all add: r q0)
  from p(4) assms(2) show "snd r < n_clusters" by simp
qed

lemma prepare_distinct_categories:
  assumes "prepare rng km delivery_df match_df = Inr df"
  shows "distinct (batter_categories df)" and "distinct (bowler_categories df)"
  using prepare_Inr(1,2) [OF assms] by simp_all

section \<open>The batter table\<close>

lemma batter_stats_keys:
  "map (\<lambda>s. (bs_batter s, bs_delivery_type s)) (batter_stats df) =
     map (\<lambda>(b, l). (decode (batter_categories df) b, l))
         (group_keys (\<lambda>(b, l). b = None) (\<lambda>(b, l). (the b, l))
            (map (\<lambda>r. (batter (fst r), snd r)) (rows df)))"
  by (simp add: batter_stats_def batter_stats_by_def batter_stat_of_def split_def comp_def)

lemma decode_eq_iff:
  assumes "prepare rng km delivery_df match_df = Inr df"
    and "r \<in> set (rows df)" and "r' \<in> set (rows df)"
  shows "decode (batter_categories df) (batter (fst r)) =
           decode (batter_categories df) (batter (fst r')) \<longleftrightarrow> batter (fst r) = batter (fst r')"
    and "decode (bowler_categories df) (bowler (fst r)) =
           decode (bowler_categories df) (bowler (fst r')) \<longleftrightarrow> bowler (fst r) = bowler (fst r')"
proof -
  from prepare_rows(1) [OF assms(1,2)] prepare_rows(1) [OF assms(1,3)]
  obtain i j where "i < length (batter_categories df)" "batter (fst r) = Some i"
    "j < length (batter_categories df)" "batter (fst r') = Some j"
    by blast
  with prepare_distinct_categories(1) [OF assms(1)]
  show "decode (batter_categories df) (batter (fst r)) =
           decode (batter_categories df) (batter (fst r')) \<longleftrightarrow> batter (fst r) = batter (fst r')"
    by (auto dest: decode_inj)
  from prepare_rows(2) [OF assms(1,2)] prepare_rows(2) [OF assms(1,3)]
  obtain i j where "i < length (bowler_categories df)" "bowler (fst r) = Some i"
    "j < length (bowler_categories df)" "bowler (fst r') = Some j"
    by blast
  with prepare_distinct_categories(2) [OF assms(1)]
  show "decode (bowler_categories df) (bowler (fst r)) =
           decode (bowler_categories df) (bowler (fst r')) \<longleftrightarrow> bowler (fst r) = bowler (fst r')"
    by (auto dest: decode_inj)
qed

lemma batter_stats_distinct:
  assumes "prepare rng km delivery_df match_df = Inr df"
  shows "distinct (map (\<lambda>s. (bs_batter s, bs_delivery_type s)) (batter_stats df))"
proof -
  let ?ks = "group_keys (\<lambda>(b, l). b = None) (\<lambda>(b, l). (the b, l))
            (map (\<lambda>r. (batter (fst r), snd r)) (rows df))"
  have "inj_on (\<lambda>(b, l). (decode (batter_categories df) b, l)) (set ?ks)"
  proof (rule inj_onI)
    fix x y assume x: "x \<in> set ?ks" and y: "y \<in> set ?ks"
      and eq: "(case x of (b, l) \<Rightarrow> (decode (batter_categories df) b, l)) =
               (case y of (b, l) \<Rightarrow> (decode (batter_categories df) b, l))"
    from x obtain r where r: "r \<in> set (rows df)" "x = (batter (fst r), snd r)" by auto
    from y obtain r' where r': "r' \<in> set (rows df)" "y = (batter (fst r'), snd r')" by auto
    from eq r r' decode_eq_iff(1) [OF assms r(1) r'(1)] show "x = y" by simp
  qed
  then show ?thesis
    unfolding batter_stats_keys by (simp add: distinct_map)
qed

lemma batter_stats_group:
  assumes p: "prepare rng km delivery_df match_df = Inr df"
    and s: "s \<in> set (batter_stats df)"
  defines "g \<equiv> filter (\<lambda>r. decode (batter_categories df) (batter (fst r)) = bs_batter s
                          \<and> snd r = bs_delivery_type s) (rows df)"
  shows "g \<noteq> []"
    and "balls_faced s = length g"
    and "total_runs s = sum_list (map (\<lambda>r. the (runs_batter (fst r))) g)"
    and "avg_runs s = Some (sum_list (map (\<lambda>r. the (runs_batter (fst r))) g) / of_nat (length g))"
    and "avg_strike_rate s =
           Some (sum_list (map (\<lambda>r. the (batter_strike_rate (fst r))) g) / of_nat (length g))"
proof -
  let ?ks = "group_keys (\<lambda>(b, l). b = None) (\<lambda>(b, l). (the b, l))
            (map (\<lambda>r. (batter (fst r), snd r)) (rows df))"
  from s obtain b l where key: "(b, l) \<in> set ?ks"
    and s_eq: "s = batter_stat_of (decode (batter_categories df)) (rows df) b l"
    by (auto simp: batter_stats_def batter_stats_by_def)
  from s_eq have sb: "bs_batter s = decode (batter_categories df) b"
    and sl: "bs_delivery_type s = l"
    and tr: "total_runs s = col_sum (map runs_batter (batter_group (rows df) b l))"
    and ar: "avg_runs s = col_mean (map runs_batter (batter_group (rows df) b l))"
    and bf: "balls_faced s = col_count (map ball_number (batter_group (rows df) b l))"
    and sr: "avg_strike_rate s = col_mean (map batter_strike_rate (batter_group (rows df) b l))"
    by (simp_all add: batter_stat_of_def)
  from key obtain r0 where r0: "r0 \<in> set (rows df)" "batter (fst r0) = b" "snd r0 = l"
    by auto
  have g: "g = filter (\<lambda>r. batter (fst r) = b \<and> snd r = l) (rows df)"
    unfolding g_def sb sl
    by (rule filter_cong [OF refl]) (use decode_eq_iff(1) [OF p _ r0(1)] r0(2) in auto)
  from r0 show "g \<noteq> []" by (auto simp: g filter_empty_conv)
  then have ne: "map fst g \<noteq> []" by simp
  have bg: "batter_group (rows df) b l = map fst g" by (simp add: batter_group_def g)
  have sub: "set g \<subseteq> set (rows df)" by (auto simp: g)
  have nn: "\<forall>x \<in> set (map fst g). runs_batter x \<noteq> None"
    "\<forall>x \<in> set (map fst g). ball_number x \<noteq> None"
    "\<forall>x \<in> set (map fst g). batter_strike_rate x \<noteq> None"
    using prepare_rows(3,4,5) [OF p] sub by auto
  from bf col_all(2) [OF nn(2)] show "balls_faced s = length g"
    by (simp add: bg)
  from tr col_all(1) [OF nn(1)] show "total_runs s = sum_list (map (\<lambda>r. the (runs_batter (fst r))) g)"
    by (simp add: bg comp_def)
  from ar col_all(3) [OF nn(1) ne]
  show "avg_runs s = Some (sum_list (map (\<lambda>r. the (runs_batter (fst r))) g) / of_nat (length g))"
    by (simp add: bg comp_def)
  from sr col_all(3) [OF nn(3) ne]
  show "avg_strike_rate s =
           Some (sum_list (map (\<lambda>r. the (batter_strike_rate (fst r))) g) / of_nat (length g))"
    by (simp add: bg comp_def)
qed

lemma batter_stats_cover:
  assumes p: "prepare rng km delivery_df match_df = Inr df" and r: "r \<in> set (rows df)"
  shows "\<exists>s \<in> set (batter_stats df).
           bs_batter s = decode (batter_categories df) (batter (fst r)) \<and> bs_delivery_type s = snd r"
proof -
  let ?ks = "group_keys (\<lambda>(b, l). b = None) (\<lambda>(b, l). (the b, l))
            (map (\<lambda>r. (batter (fst r), snd r)) (rows df))"
  from prepare_rows(1) [OF p r] r have "(batter (fst r), snd r) \<in> set ?ks" by auto
  then have "(decode (batter_categories df) (batter (fst r)), snd r)
      \<in> set (map (\<lambda>s. (bs_batter s, bs_delivery_type s)) (batter_stats df))"
    unfolding batter_stats_keys by force
  then show ?thesis by auto
qed

lemma prepare_ex: "prepare ex_rng ex_km ex_deliveries ex_matches = Inr ex_frame"
  by code_simp

text \<open>
  C2. In the batter table, every row describes the rows of the clustered table that
  have its batter and its delivery-type label: there is at least one, \<open>balls_faced\<close>
  is their number, \<open>total_runs\<close> the sum of their \<open>runs_batter\<close>, \<open>avg_runs\<close> that sum
  by their number and \<open>avg_strike_rate\<close> the sum of their \<open>batter_strike_rate\<close> by their
  number. Every pair of batter and label that has a row has a row of the batter
  table, and no pair has two.
\<close>

theorem batter_stats_correct:
  assumes "prepare rng km delivery_df match_df = Inr df"
  shows "(\<forall>s \<in> set (batter_stats df).
            let g = filter (\<lambda>r. batter_value df r = bs_batter s \<and> snd r = bs_delivery_type s)
                           (rows df)
            in g \<noteq> []
             \<and> balls_faced s = length g
             \<and> total_runs s = sum_list (map (\<lambda>r. the (runs_batter (fst r))) g)
             \<and> avg_runs s =
                 Some (sum_list (map (\<lambda>r. the (runs_batter (fst r))) g) / of_nat (length g))
             \<and> avg_strike_rate s =
                 Some (sum_list (map (\<lambda>r. the (batter_strike_rate (fst r))) g) / of_nat (length g)))
       \<and> (\<forall>r \<in> set (rows df).
            runs_batter (fst r) \<noteq> None \<and> batter_strike_rate (fst r) \<noteq> None
            \<and> (\<exists>s \<in> set (batter_stats df).
                  bs_batter s = batter_value df r \<and> bs_delivery_type s = snd r))
       \<and> distinct (map (\<lambda>s. (bs_batter s, bs_delivery_type s)) (batter_stats df))"
proof (intro conjI ballI)
  fix s assume "s \<in> set (batter_stats df)"
  from batter_stats_group [OF assms this]
  show "let g = filter (\<lambda>r. batter_value df r = bs_batter s \<and> snd r = bs_delivery_type s)
                           (rows df)
            in g \<noteq> []
             \<and> balls_faced s = length g
             \<and> total_runs s = sum_list (map (\<lambda>r. the (runs_batter (fst r))) g)
             \<and> avg_runs s =
                 Some (sum_list (map (\<lambda>r. the (runs_batter (fst r))) g) / of_nat (length g))
             \<and> avg_strike_rate s =
                 Some (sum_list (map (\<lambda>r. the (batter_strike_rate (fst r))) g) / of_nat (length g))"
    unfolding Let_def batter_value_def by blast
next
  fix r assume r: "r \<in> set (rows df)"
  from prepare_rows(3) [OF assms r] show "runs_batter (fst r) \<noteq> None" .
  from prepare_rows(5) [OF assms r] show "batter_strike_rate (fst r) \<noteq> None" .
  from batter_stats_cover [OF assms r]
  show "\<exists>s \<in> set (batter_stats df). bs_batter s = batter_value df r \<and> bs_delivery_type s = snd r"
    by (simp add: batter_value_def)
next
  from batter_stats_distinct [OF assms]
  show "distinct (map (\<lambda>s. (bs_batter s, bs_delivery_type s)) (batter_stats df))" .
qed

lemma batter_stats_ex:
  "batter_stats ex_frame =
     [\<lparr> bs_batter = Num 0, bs_delivery_type = 0, total_runs = 0,
         avg_runs = Some 0, balls_faced = 1, avg_strike_rate = Some 0 \<rparr>,
      \<lparr> bs_batter = Str ''Kohli'', bs_delivery_type = 0, total_runs = 6,
         avg_runs = Some 3, balls_faced = 2, avg_strike_rate = Some 200 \<rparr>,
      \<lparr> bs_batter = Str ''Root'', bs_delivery_type = 1, total_runs = 0,
         avg_runs = Some 0, balls_faced = 1, avg_strike_rate = Some 700 \<rparr>]"
  by code_simp

theorem batter_stats_correct_witness:
  "prepare ex_rng ex_km ex_deliveries ex_matches = Inr ex_frame
   \<and> map balls_faced (batter_stats ex_frame) = [1, 2, 1]
   \<and> list_all
         (\<lambda>s. balls_faced s =
               length (filter (\<lambda>r. batter_value ex_frame r = bs_batter s
                                   \<and> snd r = bs_delivery_type s) (rows ex_frame)))
         (batter_stats ex_frame)
   \<and> list_all
         (\<lambda>r. list_ex (\<lambda>s. bs_batter s = batter_value ex_frame r \<and> bs_delivery_type s = snd r)
                     (batter_stats ex_frame))
         (rows ex_frame)"
proof -
  note t = batter_stats_correct [OF prepare_ex]
  from t have a: "list_all
         (\<lambda>s. balls_faced s =
               length (filter (\<lambda>r. batter_value ex_frame r = bs_batter s
                                   \<and> snd r = bs_delivery_type s) (rows ex_frame)))
         (batter_stats ex_frame)"
    unfolding Let_def list_all_iff by blast
  from t have b: "list_all
         (\<lambda>r. list_ex (\<lambda>s. bs_batter s = batter_value ex_frame r \<and> bs_delivery_type s = snd r)
                     (batter_stats ex_frame))
         (rows ex_frame)"
    unfolding list_all_iff list_ex_iff by blast
  have c: "map balls_faced (batter_stats ex_frame) = [1, 2, 1]"
    by (simp add: batter_stats_ex)
  from prepare_ex a b c show ?thesis by blast
qed

section \<open>The bowler table\<close>

lemma sum_list_indicator:
  "distinct cols \<Longrightarrow> a \<in> set cols \<Longrightarrow> sum_list (map (\<lambda>l. if a = l then 1 else 0) cols) = (1 :: nat)"
  by (induction cols) auto

lemma sum_group_sizes:
  assumes "distinct cols" and "\<forall>x \<in> set xs. P x \<longrightarrow> f x \<in> set cols"
  shows "sum_list (map (\<lambda>l. length (filter (\<lambda>x. P x \<and> f x = l) xs)) cols) = length (filter P xs)"
  using assms(2)
proof (induction xs)
  case Nil
  then show ?case by simp
next
  case (Cons x xs)
  then have ih: "sum_list (map (\<lambda>l. length (filter (\<lambda>x. P x \<and> f x = l) xs)) cols) = length (filter P xs)"
    by simp
  show ?case
  proof (cases "P x")
    case True
    with Cons.prems have "f x \<in> set cols" by simp
    have "sum_list (map (\<lambda>l. length (filter (\<lambda>x. P x \<and> f x = l) (x # xs))) cols) =
          sum_list (map (\<lambda>l. length (filter (\<lambda>x. P x \<and> f x = l) xs) + (if f x = l then 1 else 0)) cols)"
      using True by (intro arg_cong [where f = sum_list] map_cong) auto
    also have "\<dots> = length (filter P xs) + 1"
      using sum_list_indicator [OF assms(1) \<open>f x \<in> set cols\<close>] ih
      by (simp add: sum_list_addf)
    finally show ?thesis using True by simp
  next
    case False
    then show ?thesis using ih by simp
  qed
qed


lemma bowler_keys_set:
  assumes p: "prepare rng km delivery_df match_df = Inr df"
  shows "set (group_keys (\<lambda>(b, l). b = None) (\<lambda>(b, l). (the b, l))
                 (map (\<lambda>r. (bowler (fst r), snd r)) (rows df))) =
         (\<lambda>r. (bowler (fst r), snd r)) ` set (rows df)"
  using prepare_rows(2) [OF p] by auto

lemma bowler_trends_unfold:
  assumes p: "prepare rng km delivery_df match_df = Inr df"
  defines "cols \<equiv> sorted_list_of_set (snd ` set (rows df))"
  shows "columns (bowler_trends df) = cols"
    and "counts (bowler_trends df) =
           map (\<lambda>b. (decode (bowler_categories df) b,
                      map (\<lambda>l. length (filter (\<lambda>r. bowler (fst r) = b \<and> snd r = l) (rows df))) cols))
               (remdups (map fst (group_keys (\<lambda>(b, l). b = None) (\<lambda>(b, l). (the b, l))
                 (map (\<lambda>r. (bowler (fst r), snd r)) (rows df)))))"
proof -
  let ?ks = "group_keys (\<lambda>(b, l). b = None) (\<lambda>(b, l). (the b, l))
                 (map (\<lambda>r. (bowler (fst r), snd r)) (rows df))"
  note ks = bowler_keys_set [OF p]
  have labels: "set (map snd ?ks) = snd ` set (rows df)"
    unfolding set_map ks by (simp add: image_image)
  have "sort (remdups (map snd ?ks)) = sorted_list_of_set (set (map snd ?ks))"
    by (simp only: sorted_list_of_set_sort_remdups)
  then have c: "sort (remdups (map snd ?ks)) = cols"
    unfolding cols_def labels .
  then show "columns (bowler_trends df) = cols"
    by (simp add: bowler_trends_def bowler_trends_by_def Let_def)
  have sz: "(if (b, l) \<in> set ?ks
             then length (filter (\<lambda>r. (bowler (fst r), snd r) = (b, l)) (rows df)) else 0) =
            length (filter (\<lambda>r. bowler (fst r) = b \<and> snd r = l) (rows df))" for b l
  proof (cases "(b, l) \<in> set ?ks")
    case True
    then show ?thesis by simp
  next
    case False
    then have "filter (\<lambda>r. bowler (fst r) = b \<and> snd r = l) (rows df) = []"
      unfolding ks by (auto simp: filter_empty_conv)
    with False show ?thesis by simp
  qed
  show "counts (bowler_trends df) =
           map (\<lambda>b. (decode (bowler_categories df) b,
                      map (\<lambda>l. length (filter (\<lambda>r. bowler (fst r) = b \<and> snd r = l) (rows df))) cols))
               (remdups (map fst ?ks))"
    unfolding bowler_trends_def bowler_trends_by_def Let_def c sz
    by (simp only: trends.select_convs)
qed

lemma bowler_trends_entry:
  assumes p: "prepare rng km delivery_df match_df = Inr df"
    and e: "(b, cs) \<in> set (counts (bowler_trends df))"
  shows "cs = map (\<lambda>l. length (filter (\<lambda>r. bowler_value df r = b \<and> snd r = l) (rows df)))
                  (columns (bowler_trends df))"
    and "sum_list cs = length (filter (\<lambda>r. bowler_value df r = b) (rows df))"
    and "b \<in> bowler_value df ` set (rows df)"
proof -
  let ?ks = "group_keys (\<lambda>(b, l). b = None) (\<lambda>(b, l). (the b, l))
                 (map (\<lambda>r. (bowler (fst r), snd r)) (rows df))"
  let ?cols = "sorted_list_of_set (snd ` set (rows df))"
  note u = bowler_trends_unfold [OF p]
  note ks = bowler_keys_set [OF p]
  from e [unfolded u(2) set_map] obtain c where c0: "c \<in> set (remdups (map fst ?ks))"
    and eq: "(b, cs) = (decode (bowler_categories df) c,
               map (\<lambda>l. length (filter (\<lambda>r. bowler (fst r) = c \<and> snd r = l) (rows df))) ?cols)"
    by (rule imageE)
  from c0 have c: "c \<in> fst ` set ?ks" by simp
  from eq have b: "b = decode (bowler_categories df) c"
    and cs: "cs = map (\<lambda>l. length (filter (\<lambda>r. bowler (fst r) = c \<and> snd r = l) (rows df))) ?cols"
    by simp_all
  from c obtain r0 where r0: "r0 \<in> set (rows df)" "bowler (fst r0) = c"
    unfolding ks by auto
  have iff: "bowler_value df r = b \<longleftrightarrow> bowler (fst r) = c" if "r \<in> set (rows df)" for r
    using decode_eq_iff(2) [OF p that r0(1)] r0(2) b by (simp add: bowler_value_def)
  from r0 b show "b \<in> bowler_value df ` set (rows df)"
    by (auto simp: bowler_value_def)
  have f1: "filter (\<lambda>r. bowler_value df r = b \<and> snd r = l) (rows df) =
            filter (\<lambda>r. bowler (fst r) = c \<and> snd r = l) (rows df)" for l
    by (rule filter_cong [OF refl]) (simp add: iff)
  have f2: "filter (\<lambda>r. bowler_value df r = b) (rows df) =
            filter (\<lambda>r. bowler (fst r) = c) (rows df)"
    by (rule filter_cong [OF refl]) (simp add: iff)
  show "cs = map (\<lambda>l. length (filter (\<lambda>r. bowler_value df r = b \<and> snd r = l) (rows df)))
                  (columns (bowler_trends df))"
    unfolding u(1) f1 cs ..
  have "sum_list (map (\<lambda>l. length (filter (\<lambda>r. bowler (fst r) = c \<and> snd r = l) (rows df))) ?cols) =
        length (filter (\<lambda>r. bowler (fst r) = c) (rows df))"
    by (rule sum_group_sizes) simp_all
  then show "sum_list cs = length (filter (\<lambda>r. bowler_value df r = b) (rows df))"
    unfolding f2 cs .
qed

lemma bowler_trends_index:
  assumes p: "prepare rng km delivery_df match_df = Inr df"
  shows "distinct (map fst (counts (bowler_trends df)))"
    and "set (map fst (counts (bowler_trends df))) = bowler_value df ` set (rows df)"
proof -
  let ?ks = "group_keys (\<lambda>(b, l). b = None) (\<lambda>(b, l). (the b, l))
                 (map (\<lambda>r. (bowler (fst r), snd r)) (rows df))"
  note u = bowler_trends_unfold [OF p]
  note ks = bowler_keys_set [OF p]
  have m: "map fst (counts (bowler_trends df)) =
           map (decode (bowler_categories df)) (remdups (map fst ?ks))"
    unfolding u(2) map_map by (rule map_cong [OF refl]) (simp only: comp_apply fst_conv)
  have s: "set (remdups (map fst ?ks)) = (\<lambda>r. bowler (fst r)) ` set (rows df)"
    unfolding set_remdups set_map ks by (simp add: image_image)
  have "inj_on (decode (bowler_categories df)) (set (remdups (map fst ?ks)))"
    unfolding s
  proof (rule inj_onI)
    fix x y
    assume "x \<in> (\<lambda>r. bowler (fst r)) ` set (rows df)" "y \<in> (\<lambda>r. bowler (fst r)) ` set (rows df)"
      and eq: "decode (bowler_categories df) x = decode (bowler_categories df) y"
    then obtain r r' where "r \<in> set (rows df)" "x = bowler (fst r)"
      "r' \<in> set (rows df)" "y = bowler (fst r')" by auto
    with eq decode_eq_iff(2) [OF p, of r r'] show "x = y" by simp
  qed
  then show "distinct (map fst (counts (bowler_trends df)))"
    unfolding m by (simp add: distinct_map)
  show "set (map fst (counts (bowler_trends df))) = bowler_value df ` set (rows df)"
    unfolding m set_map s by (auto simp: bowler_value_def)
qed

text \<open>
  What the bowler table holds for every input. It has one column for each
  delivery-type label that occurs in the clustered table, in ascending order, all
  among 0 to 3, and one row for each bowler that occurs. The entry of a bowler
  under a label is the number of rows with that bowler and that label (0 when there
  is none), and the entries of a bowler add up to the number of rows with that
  bowler.
\<close>

lemma bowler_trends_counts:
  assumes "prepare rng km delivery_df match_df = Inr df"
  shows "columns (bowler_trends df) = sorted_list_of_set (snd ` set (rows df))
       \<and> set (columns (bowler_trends df)) \<subseteq> {0, 1, 2, 3}
       \<and> distinct (map fst (counts (bowler_trends df)))
       \<and> set (map fst (counts (bowler_trends df))) = bowler_value df ` set (rows df)
       \<and> (\<forall>(b, cs) \<in> set (counts (bowler_trends df)).
             cs = map (\<lambda>l. length (filter (\<lambda>r. bowler_value df r = b \<and> snd r = l) (rows df)))
                      (columns (bowler_trends df))
           \<and> sum_list cs = length (filter (\<lambda>r. bowler_value df r = b) (rows df)))"
proof (intro conjI)
  show c: "columns (bowler_trends df) = sorted_list_of_set (snd ` set (rows df))"
    by (rule bowler_trends_unfold(1) [OF assms])
  have "snd ` set (rows df) \<subseteq> {0, 1, 2, 3}"
  proof
    fix l assume "l \<in> snd ` set (rows df)"
    then obtain r where "r \<in> set (rows df)" "l = snd r" by blast
    with prepare_rows(7) [OF assms, of r] show "l \<in> {0, 1, 2, 3}"
      by (auto simp: n_clusters_def)
  qed
  then show "set (columns (bowler_trends df)) \<subseteq> {0, 1, 2, 3}"
    unfolding c by simp
  show "distinct (map fst (counts (bowler_trends df)))"
    by (rule bowler_trends_index(1) [OF assms])
  show "set (map fst (counts (bowler_trends df))) = bowler_value df ` set (rows df)"
    by (rule bowler_trends_index(2) [OF assms])
  show "\<forall>(b, cs) \<in> set (counts (bowler_trends df)).
             cs = map (\<lambda>l. length (filter (\<lambda>r. bowler_value df r = b \<and> snd r = l) (rows df)))
                      (columns (bowler_trends df))
           \<and> sum_list cs = length (filter (\<lambda>r. bowler_value df r = b) (rows df))"
  proof
    fix x assume x: "x \<in> set (counts (bowler_trends df))"
    obtain b cs where bc: "x = (b, cs)" by (cases x)
    from bowler_trends_entry(1,2) [OF assms x [unfolded bc]]
    show "case x of (b, cs) \<Rightarrow>
             cs = map (\<lambda>l. length (filter (\<lambda>r. bowler_value df r = b \<and> snd r = l) (rows df)))
                      (columns (bowler_trends df))
           \<and> sum_list cs = length (filter (\<lambda>r. bowler_value df r = b) (rows df))"
      unfolding bc prod.case by (rule conjI)
  qed
qed

text \<open>
  C3. The claim gives the bowler table the four columns 0, 1, 2, 3 for every input,
  and line 90 of the script selects these four columns from it. Line 47 does not
  provide them. In \<open>flat_deliveries\<close> the sampled rows have the same features, so
  every row gets label 0: the table has the single column 0, the selection of line
  90 raises \<open>KeyError\<close> for the columns 1, 2, 3, and of the bar chart there is only
  the warning line.
\<close>

theorem bowler_trends_missing_columns:
  "map_sum id bowler_trends (prepare ex_rng flat_km flat_deliveries flat_matches) =
     Inr \<lparr> columns = [0], counts = [(Str ''Bumrah'', [1]), (Str ''Starc'', [3])] \<rparr>
   \<and> map_sum id (columns \<circ> bowler_trends)
         (prepare ex_rng flat_km flat_deliveries flat_matches) \<noteq> Inr [0, 1, 2, 3]
   \<and> bar_chart_body drawn_bars
         \<lparr> columns = [0], counts = [(Str ''Bumrah'', [1]), (Str ''Starc'', [3])] \<rparr> =
       Inl (KeyError ''[1, 2, 3] not in index'')
   \<and> stdout (snd (run ex_rng flat_km drawn_heatmap drawn_bars flat_deliveries flat_matches
                      empty_world)) =
       [check_mark @ '' Analysis complete. CSVs saved.'',
        warning_sign @ '' Horizontal bar chart generation failed: '' @ [CHR 0x27]
          @ ''[1, 2, 3] not in index'' @ [CHR 0x27]]
   \<and> files (snd (run ex_rng flat_km drawn_heatmap drawn_bars flat_deliveries flat_matches
                     empty_world)) ''bowler_delivery_distribution_top20.png'' = None"
proof -
  have a: "map_sum id bowler_trends (prepare ex_rng flat_km flat_deliveries flat_matches) =
     Inr \<lparr> columns = [0], counts = [(Str ''Bumrah'', [1]), (Str ''Starc'', [3])] \<rparr>"
    by code_simp
  have b: "map_sum id (columns \<circ> bowler_trends)
         (prepare ex_rng flat_km flat_deliveries flat_matches) = Inr [0]"
    by code_simp
  have c: "bar_chart_body drawn_bars
         \<lparr> columns = [0], counts = [(Str ''Bumrah'', [1]), (Str ''Starc'', [3])] \<rparr> =
       Inl (KeyError ''[1, 2, 3] not in index'')"
    by code_simp
  have d: "stdout (snd (run ex_rng flat_km drawn_heatmap drawn_bars flat_deliveries flat_matches
                      empty_world)) =
       [check_mark @ '' Analysis complete. CSVs saved.'',
        warning_sign @ '' Horizontal bar chart generation failed: '' @ [CHR 0x27]
          @ ''[1, 2, 3] not in index'' @ [CHR 0x27]]"
    by code_simp
  have e: "files (snd (run ex_rng flat_km drawn_heatmap drawn_bars flat_deliveries flat_matches
                     empty_world)) ''bowler_delivery_distribution_top20.png'' = None"
    by code_simp
  from a b c d e show ?thesis by simp
qed

section \<open>Missing values\<close>

lemma filter_by_positions:
  "filter P xs = map (\<lambda>i. xs ! i) (filter (\<lambda>i. P (xs ! i)) [0..<length xs])"
proof -
  have "filter P xs = filter P (map (\<lambda>i. xs ! i) [0..<length xs])"
    by (simp add: map_nth)
  also have "\<dots> = map (\<lambda>i. xs ! i) (filter (\<lambda>i. P (xs ! i)) [0..<length xs])"
    by (simp add: filter_map comp_def)
  finally show ?thesis .
qed

lemma the_fill_num: "the (fill_num v) = (case v of None \<Rightarrow> 0 | Some x \<Rightarrow> x)"
  by (cases v) simp_all

lemma prepare_row_nth:
  assumes "prepare rng km delivery_df match_df = Inr df"
  defines "J \<equiv> sample rng (merge delivery_df match_df)"
  shows "length (rows df) = length J"
    and "i < length J \<Longrightarrow>
           fst (rows df ! i) =
             map_ids (encode (batter_categories df)) (encode (bowler_categories df)) (fill_row (J ! i))"
proof -
  from prepare_Inr(3) [OF assms(1)]
  have m: "map fst (rows df) =
      map (map_ids (encode (batter_categories df)) (encode (bowler_categories df))) (map fill_row J)"
    by (simp add: fillna_def J_def)
  from m have "length (map fst (rows df)) = length J" by simp
  then show len: "length (rows df) = length J" by simp
  assume i: "i < length J"
  with len have "fst (rows df ! i) = map fst (rows df) ! i" by simp
  also from i have "\<dots> =
      map_ids (encode (batter_categories df)) (encode (bowler_categories df)) (fill_row (J ! i))"
    unfolding m by simp
  finally show "fst (rows df ! i) =
             map_ids (encode (batter_categories df)) (encode (bowler_categories df)) (fill_row (J ! i))" .
qed

lemma avg_strike_rate_filled:
  assumes p: "prepare rng km delivery_df match_df = Inr df"
    and s: "s \<in> set (batter_stats df)"
  defines "J \<equiv> sample rng (merge delivery_df match_df)"
  defines "idx \<equiv> filter (\<lambda>i. batter_value df (rows df ! i) = bs_batter s
                             \<and> snd (rows df ! i) = bs_delivery_type s) [0..<length J]"
  shows "idx \<noteq> []"
    and "avg_strike_rate s =
           Some (sum_list (map (\<lambda>i. case batter_strike_rate (J ! i) of None \<Rightarrow> 0 | Some v \<Rightarrow> v) idx)
                 / of_nat (length idx))"
proof -
  let ?P = "\<lambda>r. decode (batter_categories df) (batter (fst r)) = bs_batter s
                  \<and> snd r = bs_delivery_type s"
  let ?g = "filter ?P (rows df)"
  note n = prepare_row_nth [OF p, folded J_def]
  have g: "?g = map (\<lambda>i. rows df ! i) idx"
    unfolding idx_def batter_value_def n(1) [symmetric] by (rule filter_by_positions)
  from batter_stats_group(1) [OF p s] g show "idx \<noteq> []" by auto
  have "sum_list (map (\<lambda>r. the (batter_strike_rate (fst r))) ?g) =
        sum_list (map (\<lambda>i. the (batter_strike_rate (fst (rows df ! i)))) idx)"
    unfolding g by (simp add: comp_def)
  also have "\<dots> = sum_list (map (\<lambda>i. case batter_strike_rate (J ! i) of None \<Rightarrow> 0 | Some v \<Rightarrow> v) idx)"
  proof (rule arg_cong [where f = sum_list], rule map_cong [OF refl])
    fix i assume "i \<in> set idx"
    then have "i < length J" by (simp add: idx_def)
    from n(2) [OF this]
    show "the (batter_strike_rate (fst (rows df ! i))) =
            (case batter_strike_rate (J ! i) of None \<Rightarrow> 0 | Some v \<Rightarrow> v)"
      by (simp add: the_fill_num)
  qed
  finally have "sum_list (map (\<lambda>r. the (batter_strike_rate (fst r))) ?g) =
      sum_list (map (\<lambda>i. case batter_strike_rate (J ! i) of None \<Rightarrow> 0 | Some v \<Rightarrow> v) idx)" .
  moreover have "length ?g = length idx" unfolding g by simp
  ultimately show "avg_strike_rate s =
           Some (sum_list (map (\<lambda>i. case batter_strike_rate (J ! i) of None \<Rightarrow> 0 | Some v \<Rightarrow> v) idx)
                 / of_nat (length idx))"
    using batter_stats_group(5) [OF p s] by simp
qed

lemma fillna_nth: "i < length df \<Longrightarrow> fillna df ! i = fill_row (df ! i)"
  by (simp add: fillna_def)

lemma fill_cell_eq: "fill_cell c = (if c = NaN then Num 0 else c)"
  by (cases c) simp_all

lemma fill_num_eq: "fill_num v = (if v = None then Some 0 else v)"
  by (cases v) simp_all

text \<open>
  C7. The fill step keeps every row and leaves no missing value in any column: a
  value that is present is unchanged and a missing one becomes the number 0, in the
  numeric columns, the identifier columns and every other column alike. A row of
  the sample whose \<open>batter_strike_rate\<close> is missing is not dropped: the rows of the
  clustered table are those of the sample, and \<open>avg_strike_rate\<close> of a group is the
  sum over all its rows, 0 for a missing strike rate, by the number of all its rows.
\<close>

theorem fillna_zero:
  "length (fillna df) = length df
   \<and> (\<forall>r \<in> set (fillna df).
         match_id r \<noteq> NaN \<and> over r \<noteq> None \<and> ball_number r \<noteq> None \<and> batter r \<noteq> NaN
         \<and> bowler r \<noteq> NaN \<and> runs_batter r \<noteq> None \<and> pressure_index r \<noteq> None
         \<and> batter_strike_rate r \<noteq> None \<and> bowler_economy r \<noteq> None
         \<and> (\<forall>cv \<in> set (other r). snd cv \<noteq> NaN))
   \<and> (\<forall>i < length df.
         match_id (fillna df ! i) = (if match_id (df ! i) = NaN then Num 0 else match_id (df ! i))
         \<and> over (fillna df ! i) = (if over (df ! i) = None then Some 0 else over (df ! i))
         \<and> ball_number (fillna df ! i) =
             (if ball_number (df ! i) = None then Some 0 else ball_number (df ! i))
         \<and> batter (fillna df ! i) = (if batter (df ! i) = NaN then Num 0 else batter (df ! i))
         \<and> bowler (fillna df ! i) = (if bowler (df ! i) = NaN then Num 0 else bowler (df ! i))
         \<and> runs_batter (fillna df ! i) =
             (if runs_batter (df ! i) = None then Some 0 else runs_batter (df ! i))
         \<and> pressure_index (fillna df ! i) =
             (if pressure_index (df ! i) = None then Some 0 else pressure_index (df ! i))
         \<and> batter_strike_rate (fillna df ! i) =
             (if batter_strike_rate (df ! i) = None then Some 0 else batter_strike_rate (df ! i))
         \<and> bowler_economy (fillna df ! i) =
             (if bowler_economy (df ! i) = None then Some 0 else bowler_economy (df ! i))
         \<and> other (fillna df ! i) =
             map (\<lambda>(c, v). (c, if v = NaN then Num 0 else v)) (other (df ! i)))
   \<and> (prepare rng km delivery_df match_df = Inr df' \<longrightarrow>
        length (rows df') = length (sample rng (merge delivery_df match_df))
        \<and> (\<forall>s \<in> set (batter_stats df').
              let J = sample rng (merge delivery_df match_df);
                  idx = filter (\<lambda>i. batter_value df' (rows df' ! i) = bs_batter s
                                    \<and> snd (rows df' ! i) = bs_delivery_type s) [0..<length J]
              in idx \<noteq> []
               \<and> avg_strike_rate s =
                   Some (sum_list (map (\<lambda>i. case batter_strike_rate (J ! i) of
                                               None \<Rightarrow> 0 | Some v \<Rightarrow> v) idx)
                         / of_nat (length idx))))"
proof (intro conjI)
  show "length (fillna df) = length df" by (simp add: fillna_def)
  show "\<forall>r \<in> set (fillna df).
         match_id r \<noteq> NaN \<and> over r \<noteq> None \<and> ball_number r \<noteq> None \<and> batter r \<noteq> NaN
         \<and> bowler r \<noteq> NaN \<and> runs_batter r \<noteq> None \<and> pressure_index r \<noteq> None
         \<and> batter_strike_rate r \<noteq> None \<and> bowler_economy r \<noteq> None
         \<and> (\<forall>cv \<in> set (other r). snd cv \<noteq> NaN)"
    by (auto simp: fillna_def fill_num_eq)
  show "\<forall>i < length df.
         match_id (fillna df ! i) = (if match_id (df ! i) = NaN then Num 0 else match_id (df ! i))
         \<and> over (fillna df ! i) = (if over (df ! i) = None then Some 0 else over (df ! i))
         \<and> ball_number (fillna df ! i) =
             (if ball_number (df ! i) = None then Some 0 else ball_number (df ! i))
         \<and> batter (fillna df ! i) = (if batter (df ! i) = NaN then Num 0 else batter (df ! i))
         \<and> bowler (fillna df ! i) = (if bowler (df ! i) = NaN then Num 0 else bowler (df ! i))
         \<and> runs_batter (fillna df ! i) =
             (if runs_batter (df ! i) = None then Some 0 else runs_batter (df ! i))
         \<and> pressure_index (fillna df ! i) =
             (if pressure_index (df ! i) = None then Some 0 else pressure_index (df ! i))
         \<and> batter_strike_rate (fillna df ! i) =
             (if batter_strike_rate (df ! i) = None then Some 0 else batter_strike_rate (df ! i))
         \<and> bowler_economy (fillna df ! i) =
             (if bowler_economy (df ! i) = None then Some 0 else bowler_economy (df ! i))
         \<and> other (fillna df ! i) =
             map (\<lambda>(c, v). (c, if v = NaN then Num 0 else v)) (other (df ! i))"
    by (simp add: fillna_nth fill_cell_eq fill_num_eq)
  show "prepare rng km delivery_df match_df = Inr df' \<longrightarrow>
        length (rows df') = length (sample rng (merge delivery_df match_df))
        \<and> (\<forall>s \<in> set (batter_stats df').
              let J = sample rng (merge delivery_df match_df);
                  idx = filter (\<lambda>i. batter_value df' (rows df' ! i) = bs_batter s
                                    \<and> snd (rows df' ! i) = bs_delivery_type s) [0..<length J]
              in idx \<noteq> []
               \<and> avg_strike_rate s =
                   Some (sum_list (map (\<lambda>i. case batter_strike_rate (J ! i) of
                                               None \<Rightarrow> 0 | Some v \<Rightarrow> v) idx)
                         / of_nat (length idx)))"
    unfolding Let_def
    using prepare_row_nth(1) avg_strike_rate_filled by blast
qed


theorem fillna_zero_witness:
  "prepare ex_rng ex_km ex_deliveries ex_matches = Inr ex_frame
   \<and> batter_strike_rate (sample ex_rng (merge ex_deliveries ex_matches) ! 0) = None
   \<and> batter_strike_rate
         (fillna (sample ex_rng (merge ex_deliveries ex_matches)) ! 0) = Some 0
   \<and> length (rows ex_frame) = length (sample ex_rng (merge ex_deliveries ex_matches))
   \<and> avg_strike_rate (batter_stats ex_frame ! 1) = Some 200
   \<and> list_all
         (\<lambda>s. let J = sample ex_rng (merge ex_deliveries ex_matches);
                  idx = filter (\<lambda>i. batter_value ex_frame (rows ex_frame ! i) = bs_batter s
                                    \<and> snd (rows ex_frame ! i) = bs_delivery_type s)
                               [0..<length J]
              in idx \<noteq> []
               \<and> avg_strike_rate s =
                   Some (sum_list (map (\<lambda>i. case batter_strike_rate (J ! i) of
                                               None \<Rightarrow> 0 | Some v \<Rightarrow> v) idx)
                         / of_nat (length idx)))
         (batter_stats ex_frame)"
proof -
  note t = fillna_zero [of "sample ex_rng (merge ex_deliveries ex_matches)"
      ex_rng ex_km ex_deliveries ex_matches ex_frame]
  have a: "batter_strike_rate (sample ex_rng (merge ex_deliveries ex_matches) ! 0) = None"
    by code_simp
  have l: "0 < length (sample ex_rng (merge ex_deliveries ex_matches))"
    by code_simp
  from t l a
  have b: "batter_strike_rate
         (fillna (sample ex_rng (merge ex_deliveries ex_matches)) ! 0) = Some 0"
    by simp
  have c: "avg_strike_rate (batter_stats ex_frame ! 1) = Some 200"
    by (simp add: batter_stats_ex)
  from t prepare_ex
  have d: "length (rows ex_frame) = length (sample ex_rng (merge ex_deliveries ex_matches))"
    by blast
  from t prepare_ex
  have e: "list_all
         (\<lambda>s. let J = sample ex_rng (merge ex_deliveries ex_matches);
                  idx = filter (\<lambda>i. batter_value ex_frame (rows ex_frame ! i) = bs_batter s
                                    \<and> snd (rows ex_frame ! i) = bs_delivery_type s)
                               [0..<length J]
              in idx \<noteq> []
               \<and> avg_strike_rate s =
                   Some (sum_list (map (\<lambda>i. case batter_strike_rate (J ! i) of
                                               None \<Rightarrow> 0 | Some v \<Rightarrow> v) idx)
                         / of_nat (length idx)))
         (batter_stats ex_frame)"
    unfolding list_all_iff by blast
  from prepare_ex a b c d e show ?thesis by blast
qed

section \<open>The heatmap step\<close>

lemma top_batter_stats_keys:
  "map (\<lambda>s. (bs_batter s, bs_delivery_type s)) (top_batter_stats bs) =
     map (\<lambda>s. (bs_batter s, bs_delivery_type s)) (filter (\<lambda>s. bs_batter s \<in> set (top_batters bs)) bs)"
  by (simp add: top_batter_stats_def comp_def)

lemma pivot_distinct:
  assumes "distinct (map (\<lambda>s. (bs_batter s, bs_delivery_type s)) bs)"
  shows "\<exists>p. pivot (top_batter_stats bs) = Inr p"
proof -
  from assms have "distinct (map (\<lambda>s. (bs_batter s, bs_delivery_type s)) (top_batter_stats bs))"
    unfolding top_batter_stats_keys by (rule distinct_map_filter)
  then show ?thesis by (simp add: pivot_def Let_def)
qed

text \<open>
  C10. The batter table has at most one row for a batter and a delivery type, so the
  pivot of the heatmap step finds no duplicate entry: it returns its matrix.
\<close>

theorem pivot_never_duplicate:
  assumes "prepare rng km delivery_df match_df = Inr df"
  shows "distinct (map (\<lambda>s. (bs_batter s, bs_delivery_type s)) (batter_stats df))
       \<and> (\<exists>p. pivot (top_batter_stats (batter_stats df)) = Inr p)"
  using batter_stats_distinct [OF assms] pivot_distinct by blast

theorem pivot_never_duplicate_witness:
  "prepare ex_rng ex_km ex_deliveries ex_matches = Inr ex_frame
   \<and> distinct (map (\<lambda>s. (bs_batter s, bs_delivery_type s)) (batter_stats ex_frame))
   \<and> (\<exists>p. pivot (top_batter_stats (batter_stats ex_frame)) = Inr p)"
  using pivot_never_duplicate [OF prepare_ex] prepare_ex by blast

lemma clip_le: "clip u v = Some x \<Longrightarrow> x \<le> u"
  by (auto simp: clip_def split: option.splits if_splits)

lemma top_batter_stats_le:
  assumes "s \<in> set (top_batter_stats bs)" and "avg_strike_rate s = Some x"
  shows "x \<le> 250"
  using assms by (auto simp: top_batter_stats_def dest: clip_le)

lemma pivot_values:
  assumes "pivot t = Inr p" and "row \<in> set (p_values p)" and "Some x \<in> set row"
  shows "\<exists>s \<in> set t. avg_strike_rate s = Some x"
proof -
  from assms(1) have "p_values p =
      map (\<lambda>b. map (\<lambda>l. case find (\<lambda>s. bs_batter s = b \<and> bs_delivery_type s = l) t of
                                           None \<Rightarrow> None
                                         | Some s \<Rightarrow> avg_strike_rate s) (p_columns p)) (p_index p)"
    by (auto simp: pivot_def Let_def split: if_splits)
  with assms(2,3) obtain b l where
    "Some x = (case find (\<lambda>s. bs_batter s = b \<and> bs_delivery_type s = l) t of
                 None \<Rightarrow> None | Some s \<Rightarrow> avg_strike_rate s)"
    by auto
  then obtain s where "find (\<lambda>s. bs_batter s = b \<and> bs_delivery_type s = l) t = Some s"
    and "avg_strike_rate s = Some x"
    by (auto split: option.splits)
  then show ?thesis
    by (auto simp: find_Some_iff)
qed

text \<open>
  C8. After the clip step no average strike rate of the table that is pivoted for
  the heatmap exceeds 250, nor does any value of the matrix the plotting calls
  receive; a row of a top batter whose average is above 250 goes on with 250.
\<close>

theorem strike_rate_clipped:
  "(\<forall>s \<in> set (top_batter_stats bs). \<forall>x. avg_strike_rate s = Some x \<longrightarrow> x \<le> 250)
   \<and> (\<forall>p. pivot (top_batter_stats bs) = Inr p \<longrightarrow>
          heatmap_body plot bs = plot p
          \<and> (\<forall>row \<in> set (p_values p). \<forall>x. Some x \<in> set row \<longrightarrow> x \<le> 250))
   \<and> (\<forall>s \<in> set bs. \<forall>x.
          bs_batter s \<in> set (top_batters bs) \<longrightarrow> avg_strike_rate s = Some x \<longrightarrow> 250 < x \<longrightarrow>
          s\<lparr>avg_strike_rate := Some 250\<rparr> \<in> set (top_batter_stats bs))"
proof (intro conjI allI impI ballI)
  fix s x assume "s \<in> set (top_batter_stats bs)" "avg_strike_rate s = Some x"
  then show "x \<le> 250" by (rule top_batter_stats_le)
next
  fix p assume "pivot (top_batter_stats bs) = Inr p"
  then show "heatmap_body plot bs = plot p" by (simp add: heatmap_body_def)
next
  fix p row x
  assume "pivot (top_batter_stats bs) = Inr p" "row \<in> set (p_values p)" "Some x \<in> set row"
  from pivot_values [OF this] top_batter_stats_le show "x \<le> 250" by blast
next
  fix s x
  assume "s \<in> set bs" "bs_batter s \<in> set (top_batters bs)" "avg_strike_rate s = Some x" "250 < x"
  then have "s \<in> set (filter (\<lambda>s. bs_batter s \<in> set (top_batters bs)) bs)"
    and "s\<lparr>avg_strike_rate := clip 250 (avg_strike_rate s)\<rparr> = s\<lparr>avg_strike_rate := Some 250\<rparr>"
    by (simp_all add: clip_def)
  then show "s\<lparr>avg_strike_rate := Some 250\<rparr> \<in> set (top_batter_stats bs)"
    unfolding top_batter_stats_def by (metis (mono_tags, lifting) image_eqI set_map)
qed

lemma pivot_ex:
  "pivot (top_batter_stats (batter_stats ex_frame)) =
     Inr \<lparr> p_index = [Num 0, Str ''Kohli'', Str ''Root''], p_columns = [0, 1],
           p_values = [[Some 0, None], [Some 200, None], [None, Some 250]] \<rparr>"
  by code_simp

theorem strike_rate_clipped_witness:
  "avg_strike_rate (batter_stats ex_frame ! 2) = Some 700
   \<and> pivot (top_batter_stats (batter_stats ex_frame)) =
       Inr \<lparr> p_index = [Num 0, Str ''Kohli'', Str ''Root''], p_columns = [0, 1],
             p_values = [[Some 0, None], [Some 200, None], [None, Some 250]] \<rparr>
   \<and> list_all (\<lambda>s. \<forall>x. avg_strike_rate s = Some x \<longrightarrow> x \<le> 250)
         (top_batter_stats (batter_stats ex_frame))
   \<and> list_all (\<lambda>row. \<forall>x. Some x \<in> set row \<longrightarrow> x \<le> 250)
         [[Some 0, None], [Some 200, None], [None, Some (250 :: rat)]]"
proof -
  note t = strike_rate_clipped [of "batter_stats ex_frame" "\<lambda>p. Inr []"]
  from t have a: "list_all (\<lambda>s. \<forall>x. avg_strike_rate s = Some x \<longrightarrow> x \<le> 250)
         (top_batter_stats (batter_stats ex_frame))"
    unfolding list_all_iff by blast
  from t pivot_ex have "\<forall>row \<in> set [[Some 0, None], [Some 200, None], [None, Some (250 :: rat)]]. \<forall>x.
         Some x \<in> set row \<longrightarrow> x \<le> 250"
    by (metis (no_types, lifting) pivot_table.select_convs(3))
  then have b: "list_all (\<lambda>row. \<forall>x. Some x \<in> set row \<longrightarrow> x \<le> 250)
         [[Some 0, None], [Some 200, None], [None, Some (250 :: rat)]]"
    unfolding list_all_iff .
  have c: "avg_strike_rate (batter_stats ex_frame ! 2) = Some 700"
    by (simp add: batter_stats_ex)
  from a b c pivot_ex show ?thesis by blast
qed

section \<open>Failure of a chart step\<close>

lemma try_chart_caught:
  "isinstance_Exception e \<Longrightarrow>
     try_chart message name (Inl e) w = (Normal, print (message @ '' '' @ str e) w)"
  by (simp add: try_chart_def)

lemma try_chart_files:
  "name' \<noteq> name \<Longrightarrow> files (snd (try_chart message name body w)) name' = files w name'"
  by (simp add: try_chart_def print_def split: sum.splits)

lemma try_chart_Normal:
  "(\<forall>e. body = Inl e \<longrightarrow> isinstance_Exception e) \<Longrightarrow> fst (try_chart message name body w) = Normal"
  by (simp add: try_chart_def split: sum.splits)

lemma heatmap_step_files:
  "name \<noteq> ''batter_strike_rate_heatmap_top20.png'' \<Longrightarrow>
     files (snd (heatmap_step plot bs w)) name = files w name"
  unfolding heatmap_step_def by (rule try_chart_files)

lemma bar_chart_step_files:
  "name \<noteq> ''bowler_delivery_distribution_top20.png'' \<Longrightarrow>
     files (snd (bar_chart_step plot bt w)) name = files w name"
  unfolding bar_chart_step_def by (rule try_chart_files)

lemma visualize_files:
  assumes "name \<noteq> ''batter_strike_rate_heatmap_top20.png''"
    and "name \<noteq> ''bowler_delivery_distribution_top20.png''"
  shows "files (snd (visualize plot_h plot_b bs bt w)) name = files w name"
proof (cases "heatmap_step plot_h bs w")
  case (Pair out w')
  from heatmap_step_files [OF assms(1), of plot_h bs w] Pair
  have w': "files w' name = files w name" by simp
  show ?thesis
  proof (cases out)
    case Normal
    with Pair w' bar_chart_step_files [OF assms(2), of plot_b bt w'] show ?thesis
      by (simp add: visualize_def)
  next
    case (Uncaught e)
    with Pair w' show ?thesis by (simp add: visualize_def)
  qed
qed

lemma export_writes:
  "files (export df w) ''output_batter_patterns.csv'' = Some (BatterCsv (batter_stats df))"
  "files (export df w) ''output_bowler_trends.csv'' = Some (TrendsCsv (bowler_trends df))"
  "files (export df w) ''output_bowler_economy.csv'' = Some (EconomyCsv (bowler_economy_table df))"
  by (simp_all add: export_def print_def to_csv_def)

lemma visualize_Normal:
  assumes "\<forall>e. heatmap_body plot_h bs = Inl e \<longrightarrow> isinstance_Exception e"
    and "\<forall>e. bar_chart_body plot_b bt = Inl e \<longrightarrow> isinstance_Exception e"
  shows "fst (visualize plot_h plot_b bs bt w) = Normal"
proof -
  from try_chart_Normal [OF assms(1)] have h: "fst (heatmap_step plot_h bs w) = Normal"
    by (simp add: heatmap_step_def)
  from try_chart_Normal [OF assms(2)]
  have b: "fst (bar_chart_step plot_b bt w') = Normal" for w'
    by (simp add: bar_chart_step_def)
  from h obtain w' where "heatmap_step plot_h bs w = (Normal, w')"
    by (cases "heatmap_step plot_h bs w") simp
  with b [of w'] show ?thesis by (simp add: visualize_def)
qed


lemma try_chart_uncaught:
  "\<not> isinstance_Exception e \<Longrightarrow> try_chart message name (Inl e) w = (Uncaught e, w)"
  by (simp add: try_chart_def)

text \<open>
  C5, as the code has it. An exception of a chart step that is an instance of
  \<open>Exception\<close> is caught by the handler of that step: the step ends normally and
  has printed one line, its warning and the description of the exception; after
  such a failure of the heatmap step the bar chart step runs on its own table. An
  exception that is not an instance of \<open>Exception\<close> is not caught: the step ends
  with it, nothing is printed, and raised in the heatmap step it ends the run
  before the bar chart step. The bar chart step leaves the image of the heatmap as
  it was. Whatever the chart steps do, the three CSV files keep what the exporter
  wrote. When neither step raises anything but an \<open>Exception\<close>, the run ends
  normally.
\<close>

theorem chart_failure_isolated:
  "(isinstance_Exception e \<longrightarrow>
      (heatmap_body plot_h bs = Inl e \<longrightarrow>
         heatmap_step plot_h bs w =
           (Normal, print ((warning_sign @ '' Strike rate heatmap generation failed:'')
                             @ '' '' @ str e) w)
       \<and> visualize plot_h plot_b bs bt w =
           bar_chart_step plot_b bt
             (print ((warning_sign @ '' Strike rate heatmap generation failed:'')
                       @ '' '' @ str e) w))
    \<and> (bar_chart_body plot_b bt = Inl e \<longrightarrow>
         bar_chart_step plot_b bt w =
           (Normal, print ((warning_sign @ '' Horizontal bar chart generation failed:'')
                             @ '' '' @ str e) w)))
   \<and> (\<not> isinstance_Exception e \<longrightarrow>
      (heatmap_body plot_h bs = Inl e \<longrightarrow>
         heatmap_step plot_h bs w = (Uncaught e, w)
       \<and> visualize plot_h plot_b bs bt w = (Uncaught e, w))
    \<and> (bar_chart_body plot_b bt = Inl e \<longrightarrow>
         bar_chart_step plot_b bt w = (Uncaught e, w)))
   \<and> files (snd (bar_chart_step plot_b bt w)) ''batter_strike_rate_heatmap_top20.png'' =
       files w ''batter_strike_rate_heatmap_top20.png''
   \<and> (\<forall>name \<in> {''output_batter_patterns.csv'', ''output_bowler_trends.csv'',
                   ''output_bowler_economy.csv''}.
        files (snd (visualize plot_h plot_b bs bt w)) name = files w name)
   \<and> (prepare rng km delivery_df match_df = Inr df \<longrightarrow>
        files (snd (run rng km plot_h plot_b delivery_df match_df w))
            ''output_batter_patterns.csv'' = Some (BatterCsv (batter_stats df))
      \<and> files (snd (run rng km plot_h plot_b delivery_df match_df w))
            ''output_bowler_trends.csv'' = Some (TrendsCsv (bowler_trends df))
      \<and> files (snd (run rng km plot_h plot_b delivery_df match_df w))
            ''output_bowler_economy.csv'' = Some (EconomyCsv (bowler_economy_table df)))
   \<and> ((\<forall>e'. heatmap_body plot_h bs = Inl e' \<longrightarrow> isinstance_Exception e')
        \<and> (\<forall>e'. bar_chart_body plot_b bt = Inl e' \<longrightarrow> isinstance_Exception e') \<longrightarrow>
        fst (visualize plot_h plot_b bs bt w) = Normal)"
proof (intro conjI impI ballI)
  assume i: "isinstance_Exception e" and h: "heatmap_body plot_h bs = Inl e"
  from i h show hs: "heatmap_step plot_h bs w =
           (Normal, print ((warning_sign @ '' Strike rate heatmap generation failed:'')
                             @ '' '' @ str e) w)"
    unfolding heatmap_step_def by (simp only: try_chart_caught)
  show "visualize plot_h plot_b bs bt w =
           bar_chart_step plot_b bt
             (print ((warning_sign @ '' Strike rate heatmap generation failed:'')
                       @ '' '' @ str e) w)"
    unfolding visualize_def hs by simp
next
  assume "isinstance_Exception e" and "bar_chart_body plot_b bt = Inl e"
  then show "bar_chart_step plot_b bt w =
           (Normal, print ((warning_sign @ '' Horizontal bar chart generation failed:'')
                             @ '' '' @ str e) w)"
    unfolding bar_chart_step_def by (simp only: try_chart_caught)
next
  assume i: "\<not> isinstance_Exception e" and h: "heatmap_body plot_h bs = Inl e"
  from i h show hs: "heatmap_step plot_h bs w = (Uncaught e, w)"
    unfolding heatmap_step_def by (simp add: try_chart_uncaught)
  show "visualize plot_h plot_b bs bt w = (Uncaught e, w)"
    unfolding visualize_def hs by simp
next
  assume "\<not> isinstance_Exception e" and "bar_chart_body plot_b bt = Inl e"
  then show "bar_chart_step plot_b bt w = (Uncaught e, w)"
    unfolding bar_chart_step_def by (simp add: try_chart_uncaught)
next
  show "files (snd (bar_chart_step plot_b bt w)) ''batter_strike_rate_heatmap_top20.png'' =
           files w ''batter_strike_rate_heatmap_top20.png''"
    by (rule bar_chart_step_files) simp
next
  fix name :: string
  assume "name \<in> {''output_batter_patterns.csv'', ''output_bowler_trends.csv'',
                       ''output_bowler_economy.csv''}"
  then have "name \<noteq> ''batter_strike_rate_heatmap_top20.png''"
    and "name \<noteq> ''bowler_delivery_distribution_top20.png''"
    by auto
  then show "files (snd (visualize plot_h plot_b bs bt w)) name = files w name"
    by (rule visualize_files)
next
  assume p: "prepare rng km delivery_df match_df = Inr df"
  have r: "run rng km plot_h plot_b delivery_df match_df w =
           visualize plot_h plot_b (batter_stats df) (bowler_trends df) (export df w)"
    by (simp add: run_def p)
  show "files (snd (run rng km plot_h plot_b delivery_df match_df w))
                ''output_batter_patterns.csv'' = Some (BatterCsv (batter_stats df))"
    unfolding r by (subst visualize_files) (simp_all add: export_writes)
  show "files (snd (run rng km plot_h plot_b delivery_df match_df w))
                ''output_bowler_trends.csv'' = Some (TrendsCsv (bowler_trends df))"
    unfolding r by (subst visualize_files) (simp_all add: export_writes)
  show "files (snd (run rng km plot_h plot_b delivery_df match_df w))
                ''output_bowler_economy.csv'' = Some (EconomyCsv (bowler_economy_table df))"
    unfolding r by (subst visualize_files) (simp_all add: export_writes)
next
  assume "(\<forall>e'. heatmap_body plot_h bs = Inl e' \<longrightarrow> isinstance_Exception e')
            \<and> (\<forall>e'. bar_chart_body plot_b bt = Inl e' \<longrightarrow> isinstance_Exception e')"
  then show "fst (visualize plot_h plot_b bs bt w) = Normal"
    by (intro visualize_Normal) simp_all
qed

lemma prepare_ball: "prepare ex_rng ball_km ex_deliveries ex_matches = Inr ball_frame"
  by code_simp

lemma failing_heatmap_ball:
  "heatmap_body failing_heatmap (batter_stats ball_frame) =
     Inl (ValueError ''zero-size array to reduction operation'')"
  by code_simp

lemma interrupted_heatmap_ball:
  "heatmap_body interrupted_heatmap (batter_stats ball_frame) = Inl KeyboardInterrupt"
  by code_simp

lemma drawn_bars_ball:
  "bar_chart_body drawn_bars (bowler_trends ball_frame) = Inr ''bars''"
  by code_simp

lemma export_stdout:
  "stdout (export df empty_world) = [check_mark @ '' Analysis complete. CSVs saved.'']"
  by (simp add: export_def print_def to_csv_def empty_world_def)

theorem chart_failure_isolated_witness:
  "isinstance_Exception (ValueError ''zero-size array to reduction operation'')
   \<and> \<not> isinstance_Exception KeyboardInterrupt
   \<and> prepare ex_rng ball_km ex_deliveries ex_matches = Inr ball_frame
   \<and> columns (bowler_trends ball_frame) = [0, 1, 2, 3]
   \<and> heatmap_body failing_heatmap (batter_stats ball_frame) =
       Inl (ValueError ''zero-size array to reduction operation'')
   \<and> fst (run ex_rng ball_km failing_heatmap drawn_bars ex_deliveries ex_matches empty_world) =
       Normal
   \<and> stdout (snd (run ex_rng ball_km failing_heatmap drawn_bars ex_deliveries ex_matches
                      empty_world)) =
       [check_mark @ '' Analysis complete. CSVs saved.'',
        warning_sign @ '' Strike rate heatmap generation failed: ''
          @ ''zero-size array to reduction operation'']
   \<and> files (snd (run ex_rng ball_km failing_heatmap drawn_bars ex_deliveries ex_matches
                     empty_world)) ''bowler_delivery_distribution_top20.png'' = Some (Png ''bars'')
   \<and> files (snd (run ex_rng ball_km failing_heatmap drawn_bars ex_deliveries ex_matches
                     empty_world)) ''output_batter_patterns.csv'' =
       Some (BatterCsv (batter_stats ball_frame))
   \<and> heatmap_body interrupted_heatmap (batter_stats ball_frame) = Inl KeyboardInterrupt
   \<and> visualize interrupted_heatmap drawn_bars (batter_stats ball_frame)
         (bowler_trends ball_frame) (export ball_frame empty_world) =
       (Uncaught KeyboardInterrupt, export ball_frame empty_world)"
proof -
  let ?e = "ValueError ''zero-size array to reduction operation''"
  let ?w = "export ball_frame empty_world"
  let ?line = "(warning_sign @ '' Strike rate heatmap generation failed:'') @ '' ''
      @ ''zero-size array to reduction operation''"
  have i: "isinstance_Exception ?e" and k: "\<not> isinstance_Exception KeyboardInterrupt"
    by simp_all
  note t = chart_failure_isolated [of ?e failing_heatmap "batter_stats ball_frame" ?w
      drawn_bars "bowler_trends ball_frame" ex_rng ball_km ex_deliveries ex_matches ball_frame]
  note u = chart_failure_isolated [of KeyboardInterrupt interrupted_heatmap
      "batter_stats ball_frame" ?w drawn_bars "bowler_trends ball_frame"]
  have c: "columns (bowler_trends ball_frame) = [0, 1, 2, 3]"
    by code_simp
  have r: "run ex_rng ball_km plot_h plot_b ex_deliveries ex_matches empty_world =
           visualize plot_h plot_b (batter_stats ball_frame) (bowler_trends ball_frame) ?w"
    for plot_h plot_b
    by (simp add: run_def prepare_ball)
  from t i failing_heatmap_ball
  have v: "visualize failing_heatmap drawn_bars (batter_stats ball_frame)
             (bowler_trends ball_frame) ?w =
           bar_chart_step drawn_bars (bowler_trends ball_frame) (print ?line ?w)"
    by simp
  have b: "bar_chart_step drawn_bars (bowler_trends ball_frame) w' =
           (Normal, w'\<lparr>files := (files w')(''bowler_delivery_distribution_top20.png'' \<mapsto>
                                         Png ''bars'')\<rparr>)" for w'
    by (simp add: bar_chart_step_def try_chart_def drawn_bars_ball)
  have n: "fst (run ex_rng ball_km failing_heatmap drawn_bars ex_deliveries ex_matches
                  empty_world) = Normal"
    unfolding r v b by simp
  have o: "stdout (snd (run ex_rng ball_km failing_heatmap drawn_bars ex_deliveries ex_matches
                      empty_world)) =
       [check_mark @ '' Analysis complete. CSVs saved.'',
        warning_sign @ '' Strike rate heatmap generation failed: ''
          @ ''zero-size array to reduction operation'']"
    unfolding r v b by (simp add: print_def export_stdout)
  have g: "files (snd (run ex_rng ball_km failing_heatmap drawn_bars ex_deliveries ex_matches
                     empty_world)) ''bowler_delivery_distribution_top20.png'' = Some (Png ''bars'')"
    unfolding r v b by simp
  note chart_failure_isolated [of ?e failing_heatmap "batter_stats ball_frame" empty_world
      drawn_bars "bowler_trends ball_frame" ex_rng ball_km ex_deliveries ex_matches ball_frame]
  with prepare_ball
  have f: "files (snd (run ex_rng ball_km failing_heatmap drawn_bars ex_deliveries ex_matches
                     empty_world)) ''output_batter_patterns.csv'' =
       Some (BatterCsv (batter_stats ball_frame))"
    by simp
  from u k interrupted_heatmap_ball
  have x: "visualize interrupted_heatmap drawn_bars (batter_stats ball_frame)
         (bowler_trends ball_frame) ?w = (Uncaught KeyboardInterrupt, ?w)"
    by simp
  from i k prepare_ball c failing_heatmap_ball n o g f interrupted_heatmap_ball x
  show ?thesis by (intro conjI)
qed

text \<open>
  The claim C5 as it is worded speaks of any exception. \<open>KeyboardInterrupt\<close> is not
  an \<open>Exception\<close>: raised in the heatmap step it passes the handler, no warning is
  printed, the bar chart step does not run and the run ends with the exception.
\<close>

theorem chart_interrupt_counterexample:
  "heatmap_body interrupted_heatmap (batter_stats ex_frame) = Inl KeyboardInterrupt
   \<and> heatmap_step interrupted_heatmap (batter_stats ex_frame) empty_world =
       (Uncaught KeyboardInterrupt, empty_world)
   \<and> fst (run ex_rng ex_km interrupted_heatmap drawn_bars ex_deliveries ex_matches empty_world) =
       Uncaught KeyboardInterrupt
   \<and> stdout (snd (run ex_rng ex_km interrupted_heatmap drawn_bars ex_deliveries ex_matches
                      empty_world)) = [check_mark @ '' Analysis complete. CSVs saved.'']"
proof -
  have h: "heatmap_body interrupted_heatmap (batter_stats ex_frame) = Inl KeyboardInterrupt"
    by (simp add: heatmap_body_def pivot_ex interrupted_heatmap_def)
  have s: "heatmap_step interrupted_heatmap (batter_stats ex_frame) w =
       (Uncaught KeyboardInterrupt, w)" for w
    by (simp add: heatmap_step_def try_chart_def h)
  have r: "run ex_rng ex_km interrupted_heatmap drawn_bars ex_deliveries ex_matches empty_world =
       (Uncaught KeyboardInterrupt, export ex_frame empty_world)"
    by (simp add: run_def prepare_ex visualize_def s)
  have o: "stdout (export ex_frame empty_world) = [check_mark @ '' Analysis complete. CSVs saved.'']"
    by (simp add: export_def print_def to_csv_def empty_world_def)
  from h s [of empty_world] r o show ?thesis by simp
qed

section \<open>Categorical columns and plain columns\<close>

lemma remdups_map_inj_on:
  "inj_on f (set xs) \<Longrightarrow> remdups (map f xs) = map f (remdups xs)"
proof (induction xs)
  case Nil
  then show ?case by simp
next
  case (Cons x xs)
  then have "inj_on f (set xs)" by (simp add: inj_on_def)
  with Cons.IH have ih: "remdups (map f xs) = map f (remdups xs)" by simp
  from Cons.prems have "f x \<in> f ` set xs \<longleftrightarrow> x \<in> set xs"
    by (auto simp: inj_on_def)
  with ih show ?case by simp
qed

lemma sorted_map_transfer:
  assumes "sorted (map k xs)"
    and "\<And>x y. x \<in> set xs \<Longrightarrow> y \<in> set xs \<Longrightarrow> k x \<le> k y \<Longrightarrow> k' (f x) \<le> k' (f y)"
  shows "sorted (map k' (map f xs))"
  using assms
proof (induction xs)
  case Nil
  then show ?case by simp
next
  case (Cons x xs)
  then show ?case by (auto simp: sorted_wrt_map)
qed

text \<open>Sorting commutes with a map that keeps the order of the keys.\<close>

lemma sort_key_map_iso:
  assumes d: "distinct xs"
    and iso: "\<And>x y. x \<in> set xs \<Longrightarrow> y \<in> set xs \<Longrightarrow> (k' (f x) \<le> k' (f y)) = (k x \<le> k y)"
    and inj: "inj_on k (set xs)"
  shows "sort_key k' (map f xs) = map f (sort_key k xs)"
proof -
  have eqk: "k' (f x) = k' (f y) \<Longrightarrow> x = y" if "x \<in> set xs" "y \<in> set xs" for x y
  proof -
    assume e: "k' (f x) = k' (f y)"
    then have "k' (f x) \<le> k' (f y)" "k' (f y) \<le> k' (f x)" by simp_all
    with iso [OF that] iso [OF that(2,1)] have "k x = k y" by simp
    with inj that show "x = y" by (simp add: inj_on_def)
  qed
  have injf: "inj_on f (set xs)"
    by (rule inj_onI) (use eqk in auto)
  have injk': "inj_on k' (f ` set xs)"
    by (rule inj_onI) (use eqk in auto)
  have injc: "inj_on (k' \<circ> f) (set xs)"
    by (rule comp_inj_on [OF injf injk'])
  let ?a = "sort_key k' (map f xs)" and ?b = "map f (sort_key k xs)"
  have "inj_on k' (set ?a \<union> set ?b)" using injk' by simp
  moreover have "sorted (map k' ?a)" by simp
  moreover have "distinct (map k' ?a)"
    using d injf injk' injc by (simp add: distinct_map)
  moreover have "sorted (map k' ?b)"
    by (rule sorted_map_transfer [where k = k]) (simp_all add: iso)
  moreover have "distinct (map k' ?b)"
    using d injf injk' injc by (simp add: distinct_map)
  moreover have "set ?a = set ?b" by simp
  ultimately show ?thesis by (rule map_sorted_distinct_set_unique)
qed

lemma group_keys_map:
  assumes na: "\<And>g. g \<in> set gs \<Longrightarrow> isna' (f g) = isna g"
    and iso: "\<And>g h. g \<in> set gs \<Longrightarrow> h \<in> set gs \<Longrightarrow> \<not> isna g \<Longrightarrow> \<not> isna h \<Longrightarrow>
                (ord' (f g) \<le> ord' (f h)) = (ord g \<le> ord h)"
    and inj: "inj_on ord {g \<in> set gs. \<not> isna g}"
  shows "group_keys isna' ord' (map f gs) = map f (group_keys isna ord gs)"
proof -
  let ?xs = "filter (\<lambda>g. \<not> isna g) gs"
  have f1: "filter (\<lambda>g. \<not> isna' g) (map f gs) = map f ?xs"
    unfolding filter_map comp_def
    by (rule arg_cong [where f = "map f"], rule filter_cong [OF refl]) (simp add: na)
  have injf: "inj_on f (set ?xs)"
  proof (rule inj_onI)
    fix x y assume x: "x \<in> set ?xs" and y: "y \<in> set ?xs" and e: "f x = f y"
    from x y have m: "x \<in> set gs" "y \<in> set gs" "\<not> isna x" "\<not> isna y" by simp_all
    from e iso [OF m] iso [OF m(2,1) m(4,3)] have "ord x = ord y" by simp
    with inj m show "x = y" by (simp add: inj_on_def)
  qed
  have f2: "remdups (map f ?xs) = map f (remdups ?xs)"
    by (rule remdups_map_inj_on [OF injf])
  have f3: "sort_key ord' (map f (remdups ?xs)) = map f (sort_key ord (remdups ?xs))"
  proof (rule sort_key_map_iso)
    show "distinct (remdups ?xs)" by simp
    show "(ord' (f x) \<le> ord' (f y)) = (ord x \<le> ord y)"
      if "x \<in> set (remdups ?xs)" "y \<in> set (remdups ?xs)" for x y
      using that by (intro iso) simp_all
    have "set (remdups ?xs) = {g \<in> set gs. \<not> isna g}" by auto
    with inj show "inj_on ord (set (remdups ?xs))" by simp
  qed
  show ?thesis
    unfolding group_keys_def f1 f2 f3 ..
qed


text \<open>The codes of a categorical column stand for its values, in the same order.\<close>

lemma index_of_mono:
  assumes s: "sorted (map cell_key cats)" and d: "distinct cats"
    and x: "x \<in> set cats" and y: "y \<in> set cats"
  shows "(index_of cats x \<le> index_of cats y) = (cell_key x \<le> cell_key y)"
proof
  assume le: "index_of cats x \<le> index_of cats y"
  from y have "index_of cats y < length (map cell_key cats)" by (simp add: index_of_less)
  from sorted_nth_mono [OF s le this] x y show "cell_key x \<le> cell_key y"
    by (simp add: index_of_less)
next
  assume le: "cell_key x \<le> cell_key y"
  show "index_of cats x \<le> index_of cats y"
  proof (rule ccontr)
    assume "\<not> index_of cats x \<le> index_of cats y"
    then have lt: "index_of cats y < index_of cats x" by simp
    then have "index_of cats y \<le> index_of cats x" by simp
    moreover from x have "index_of cats x < length (map cell_key cats)" by (simp add: index_of_less)
    ultimately have "map cell_key cats ! index_of cats y \<le> map cell_key cats ! index_of cats x"
      by (rule sorted_nth_mono [OF s])
    with x y have "cell_key y \<le> cell_key x" by (simp add: index_of_less)
    with le have "cell_key x = cell_key y" by simp
    then have "x = y" by (rule cell_key_inj)
    with lt show False by simp
  qed
qed

lemma encode_coding:
  assumes B: "B \<subseteq> set vs"
  shows "\<And>x. x \<in> B \<Longrightarrow> (encode (categories_of vs) x = None) = (x = NaN)"
    and "\<And>x. x \<in> B \<Longrightarrow> x \<noteq> NaN \<Longrightarrow> decode (categories_of vs) (encode (categories_of vs) x) = x"
    and "\<And>x y. x \<in> B \<Longrightarrow> y \<in> B \<Longrightarrow> x \<noteq> NaN \<Longrightarrow> y \<noteq> NaN \<Longrightarrow>
           (the (encode (categories_of vs) x) \<le> the (encode (categories_of vs) y)) =
           (cell_key x \<le> cell_key y)"
proof -
  have mem: "x \<in> set (categories_of vs) \<longleftrightarrow> x \<noteq> NaN" if "x \<in> B" for x
    using that B by auto
  show "(encode (categories_of vs) x = None) = (x = NaN)" if "x \<in> B" for x
    using mem [OF that] by (simp add: encode_None_iff)
  show "decode (categories_of vs) (encode (categories_of vs) x) = x" if "x \<in> B" "x \<noteq> NaN" for x
    using mem [OF that(1)] that(2) by (simp add: decode_encode)
  show "(the (encode (categories_of vs) x) \<le> the (encode (categories_of vs) y)) =
           (cell_key x \<le> cell_key y)"
    if "x \<in> B" "y \<in> B" "x \<noteq> NaN" "y \<noteq> NaN" for x y
  proof -
    from that B have x: "x \<in> set (categories_of vs)" and y: "y \<in> set (categories_of vs)"
      by auto
    from index_of_mono [OF categories_of_sorted categories_of_distinct x y] x y
    show ?thesis by (simp add: encode_def)
  qed
qed

lemma coded_eq_iff:
  assumes na: "\<And>x. x \<in> B \<Longrightarrow> (e x = None) = (x = NaN)"
    and de: "\<And>x. x \<in> B \<Longrightarrow> x \<noteq> NaN \<Longrightarrow> dec (e x) = x"
    and x: "x \<in> B" and b: "b \<in> B" "b \<noteq> NaN"
  shows "(e x = e b) = (x = b)"
proof
  assume eq: "e x = e b"
  from na [OF b(1)] b(2) have "e b \<noteq> None" by simp
  with eq na [OF x] have "x \<noteq> NaN" by auto
  from de [OF x this] have "x = dec (e x)" by (rule sym)
  also have "\<dots> = dec (e b)" by (simp only: eq)
  also have "\<dots> = b" by (rule de [OF b])
  finally show "x = b" .
next
  assume "x = b" then show "e x = e b" by simp
qed

lemma pair_keys_coded:
  fixes e :: "cell \<Rightarrow> nat option"
  assumes na: "\<And>x. x \<in> B \<Longrightarrow> (e x = None) = (x = NaN)"
    and iso: "\<And>x y. x \<in> B \<Longrightarrow> y \<in> B \<Longrightarrow> x \<noteq> NaN \<Longrightarrow> y \<noteq> NaN \<Longrightarrow>
                (the (e x) \<le> the (e y)) = (cell_key x \<le> cell_key y)"
    and B: "fst ` set gs \<subseteq> B"
  shows "group_keys (\<lambda>(b, l). b = None) (\<lambda>(b, l :: nat). (the b, l)) (map (\<lambda>(b, l). (e b, l)) gs) =
         map (\<lambda>(b, l). (e b, l))
             (group_keys (\<lambda>(b, l). b = NaN) (\<lambda>(b, l). (cell_key b, l)) gs)"
proof (rule group_keys_map)
  fix g assume "g \<in> set gs"
  with B have "fst g \<in> B" by auto
  from na [OF this]
  show "(case (case g of (b, l) \<Rightarrow> (e b, l)) of (b, l) \<Rightarrow> b = None) = (case g of (b, l) \<Rightarrow> b = NaN)"
    by (simp add: split_def)
next
  fix g h assume "g \<in> set gs" "h \<in> set gs"
    and n: "\<not> (case g of (b, l) \<Rightarrow> b = NaN)" "\<not> (case h of (b, l) \<Rightarrow> b = NaN)"
  with B have m: "fst g \<in> B" "fst h \<in> B" "fst g \<noteq> NaN" "fst h \<noteq> NaN"
    by (auto simp: split_def)
  from iso [OF m] iso [OF m(2,1) m(4,3)]
  show "((case (case g of (b, l) \<Rightarrow> (e b, l)) of (b, l) \<Rightarrow> (the b, l))
           \<le> (case (case h of (b, l) \<Rightarrow> (e b, l)) of (b, l) \<Rightarrow> (the b, l))) =
        ((case g of (b, l) \<Rightarrow> (cell_key b, l)) \<le> (case h of (b, l) \<Rightarrow> (cell_key b, l)))"
    by (simp add: split_def less_eq_prod_def less_le_not_le)
next
  show "inj_on (\<lambda>(b, l). (cell_key b, l)) {g \<in> set gs. \<not> (case g of (b, l) \<Rightarrow> b = NaN)}"
    by (rule inj_onI) (auto dest: cell_key_inj)
qed


lemma batter_group_coded:
  assumes na: "\<And>x. x \<in> B \<Longrightarrow> (e x = None) = (x = NaN)"
    and de: "\<And>x. x \<in> B \<Longrightarrow> x \<noteq> NaN \<Longrightarrow> dec (e x) = x"
    and B: "batter ` fst ` set rs \<subseteq> B"
    and b: "b \<in> B" "b \<noteq> NaN"
  shows "batter_group (map (\<lambda>(r, l). (map_ids e e' r, l)) rs) (e b) l =
         map (map_ids e e') (batter_group rs b l)"
proof -
  have "filter ((\<lambda>r. batter (fst r) = e b \<and> snd r = l) \<circ> (\<lambda>(r, l). (map_ids e e' r, l))) rs =
        filter (\<lambda>r. batter (fst r) = b \<and> snd r = l) rs"
  proof (rule filter_cong [OF refl])
    fix r assume "r \<in> set rs"
    with B have "batter (fst r) \<in> B" by auto
    from coded_eq_iff [OF na de this b]
    show "((\<lambda>r. batter (fst r) = e b \<and> snd r = l) \<circ> (\<lambda>(r, l). (map_ids e e' r, l))) r =
          (batter (fst r) = b \<and> snd r = l)"
      by (simp add: split_def)
  qed
  then show ?thesis
    by (simp add: batter_group_def filter_map split_def comp_def)
qed

lemma batter_stats_by_coded:
  fixes e :: "cell \<Rightarrow> nat option"
  assumes na: "\<And>x. x \<in> B \<Longrightarrow> (e x = None) = (x = NaN)"
    and de: "\<And>x. x \<in> B \<Longrightarrow> x \<noteq> NaN \<Longrightarrow> dec (e x) = x"
    and iso: "\<And>x y. x \<in> B \<Longrightarrow> y \<in> B \<Longrightarrow> x \<noteq> NaN \<Longrightarrow> y \<noteq> NaN \<Longrightarrow>
                (the (e x) \<le> the (e y)) = (cell_key x \<le> cell_key y)"
    and B: "batter ` fst ` set rs \<subseteq> B"
  shows "batter_stats_by (\<lambda>c. c = None) the dec (map (\<lambda>(r, l). (map_ids e e' r, l)) rs) =
         batter_stats_by (\<lambda>c. c = NaN) cell_key id rs"
proof -
  let ?rs' = "map (\<lambda>(r, l). (map_ids e e' r, l)) rs"
  let ?gs = "map (\<lambda>r. (batter (fst r), snd r)) rs"
  let ?ks = "group_keys (\<lambda>(b, l). b = NaN) (\<lambda>(b, l). (cell_key b, l)) ?gs"
  have gs': "map (\<lambda>r. (batter (fst r), snd r)) ?rs' = map (\<lambda>(b, l). (e b, l)) ?gs"
    by (simp add: split_def comp_def)
  have Bg: "fst ` set ?gs \<subseteq> B"
  proof
    fix x assume "x \<in> fst ` set ?gs"
    then obtain r where "r \<in> set rs" and "x = batter (fst r)" by auto
    then have "x \<in> batter ` fst ` set rs" by blast
    with B show "x \<in> B" by blast
  qed
  note ks = pair_keys_coded [OF na iso Bg]
  have m: "map (\<lambda>(b, l). batter_stat_of dec ?rs' b l) (map (\<lambda>(b, l). (e b, l)) ?ks) =
        map (\<lambda>(b, l). batter_stat_of id rs b l) ?ks"
    unfolding map_map
  proof (rule map_cong [OF refl])
    fix k assume "k \<in> set ?ks"
    then have b: "fst k \<in> B" "fst k \<noteq> NaN" using Bg by (auto simp: split_def)
    from batter_group_coded [OF na de B b] de [OF b]
    show "((\<lambda>(b, l). batter_stat_of dec ?rs' b l) \<circ> (\<lambda>(b, l). (e b, l))) k =
          (case k of (b, l) \<Rightarrow> batter_stat_of id rs b l)"
      by (simp add: split_def batter_stat_of_def comp_def)
  qed
  have "batter_stats_by (\<lambda>c. c = None) the dec ?rs' =
        map (\<lambda>(b, l). batter_stat_of dec ?rs' b l)
            (group_keys (\<lambda>(b, l). b = None) (\<lambda>(b, l). (the b, l))
               (map (\<lambda>(b, l). (e b, l)) ?gs))"
    by (simp only: batter_stats_by_def gs')
  also have "\<dots> = map (\<lambda>(b, l). batter_stat_of dec ?rs' b l) (map (\<lambda>(b, l). (e b, l)) ?ks)"
    by (rule arg_cong [OF ks])
  also note m
  also have "map (\<lambda>(b, l). batter_stat_of id rs b l) ?ks =
             batter_stats_by (\<lambda>c. c = NaN) cell_key id rs"
    by (simp only: batter_stats_by_def)
  finally show ?thesis .
qed


lemma single_keys_coded:
  fixes e :: "cell \<Rightarrow> nat option"
  assumes na: "\<And>x. x \<in> B \<Longrightarrow> (e x = None) = (x = NaN)"
    and iso: "\<And>x y. x \<in> B \<Longrightarrow> y \<in> B \<Longrightarrow> x \<noteq> NaN \<Longrightarrow> y \<noteq> NaN \<Longrightarrow>
                (the (e x) \<le> the (e y)) = (cell_key x \<le> cell_key y)"
    and B: "set gs \<subseteq> B"
  shows "group_keys (\<lambda>c. c = None) the (map e gs) =
         map e (group_keys (\<lambda>c. c = NaN) cell_key gs)"
proof (rule group_keys_map)
  fix g assume "g \<in> set gs"
  with B have "g \<in> B" by blast
  then show "(e g = None) = (g = NaN)" by (rule na)
next
  fix g h assume "g \<in> set gs" "h \<in> set gs" and n: "g \<noteq> NaN" "h \<noteq> NaN"
  with B have "g \<in> B" "h \<in> B" by blast+
  then show "(the (e g) \<le> the (e h)) = (cell_key g \<le> cell_key h)"
    using n by (rule iso)
next
  show "inj_on cell_key {g \<in> set gs. g \<noteq> NaN}"
    by (rule inj_onI) (auto dest: cell_key_inj)
qed

lemma bowler_economy_by_coded:
  fixes e :: "cell \<Rightarrow> nat option"
  assumes na: "\<And>x. x \<in> B \<Longrightarrow> (e x = None) = (x = NaN)"
    and de: "\<And>x. x \<in> B \<Longrightarrow> x \<noteq> NaN \<Longrightarrow> dec (e x) = x"
    and iso: "\<And>x y. x \<in> B \<Longrightarrow> y \<in> B \<Longrightarrow> x \<noteq> NaN \<Longrightarrow> y \<noteq> NaN \<Longrightarrow>
                (the (e x) \<le> the (e y)) = (cell_key x \<le> cell_key y)"
    and B: "bowler ` fst ` set rs \<subseteq> B"
  shows "bowler_economy_by (\<lambda>c. c = None) the dec (map (\<lambda>(r, l). (map_ids e' e r, l)) rs) =
         bowler_economy_by (\<lambda>c. c = NaN) cell_key id rs"
proof -
  let ?rs' = "map (\<lambda>(r, l). (map_ids e' e r, l)) rs"
  let ?gs = "map (bowler \<circ> fst) rs"
  let ?ks = "group_keys (\<lambda>c. c = NaN) cell_key ?gs"
  let ?F' = "\<lambda>b. (dec b, col_mean (map (bowler_economy \<circ> fst) (filter (\<lambda>r. bowler (fst r) = b) ?rs')))"
  let ?F = "\<lambda>b. (id b, col_mean (map (bowler_economy \<circ> fst) (filter (\<lambda>r. bowler (fst r) = b) rs)))"
  have gs': "map (bowler \<circ> fst) ?rs' = map e ?gs"
    by (simp add: split_def comp_def)
  have Bg: "set ?gs \<subseteq> B" using B by (simp add: image_image)
  note ks = single_keys_coded [OF na iso Bg]
  have m: "map ?F' (map e ?ks) = map ?F ?ks"
    unfolding map_map
  proof (rule map_cong [OF refl])
    fix b assume "b \<in> set ?ks"
    then have b: "b \<in> B" "b \<noteq> NaN" using Bg by auto
    have "filter ((\<lambda>r. bowler (fst r) = e b) \<circ> (\<lambda>(r, l). (map_ids e' e r, l))) rs =
          filter (\<lambda>r. bowler (fst r) = b) rs"
    proof (rule filter_cong [OF refl])
      fix r assume "r \<in> set rs"
      then have "bowler (fst r) \<in> bowler ` fst ` set rs" by blast
      with B have "bowler (fst r) \<in> B" by blast
      from coded_eq_iff [OF na de this b]
      show "((\<lambda>r. bowler (fst r) = e b) \<circ> (\<lambda>(r, l). (map_ids e' e r, l))) r =
            (bowler (fst r) = b)"
        by (simp add: split_def)
    qed
    then have "map (bowler_economy \<circ> fst) (filter (\<lambda>r. bowler (fst r) = e b) ?rs') =
               map (bowler_economy \<circ> fst) (filter (\<lambda>r. bowler (fst r) = b) rs)"
      by (simp add: filter_map split_def comp_def)
    with de [OF b] show "(?F' \<circ> e) b = ?F b" by simp
  qed
  have "bowler_economy_by (\<lambda>c. c = None) the dec ?rs' =
        map ?F' (group_keys (\<lambda>c. c = None) the (map e ?gs))"
    by (simp only: bowler_economy_by_def gs')
  also have "\<dots> = map ?F' (map e ?ks)"
    by (rule arg_cong [OF ks])
  also note m
  also have "map ?F ?ks = bowler_economy_by (\<lambda>c. c = NaN) cell_key id rs"
    by (simp only: bowler_economy_by_def)
  finally show ?thesis .
qed

lemma bowler_trends_by_alt:
  "bowler_trends_by isna ord dec rs =
     \<lparr> columns = sort (remdups (map snd
          (group_keys (\<lambda>(b, l). isna b) (\<lambda>(b, l). (ord b, l))
             (map (\<lambda>r. (bowler (fst r), snd r)) rs)))),
       counts =
         map (\<lambda>b. (dec b,
                    map (\<lambda>l. if (b, l) \<in> set (group_keys (\<lambda>(b, l). isna b) (\<lambda>(b, l). (ord b, l))
                                                (map (\<lambda>r. (bowler (fst r), snd r)) rs))
                             then length (filter (\<lambda>r. (bowler (fst r), snd r) = (b, l)) rs)
                             else 0)
                        (sort (remdups (map snd
                           (group_keys (\<lambda>(b, l). isna b) (\<lambda>(b, l). (ord b, l))
                              (map (\<lambda>r. (bowler (fst r), snd r)) rs)))))))
             (remdups (map fst
                (group_keys (\<lambda>(b, l). isna b) (\<lambda>(b, l). (ord b, l))
                   (map (\<lambda>r. (bowler (fst r), snd r)) rs)))) \<rparr>"
  unfolding bowler_trends_by_def Let_def ..

lemma bowler_trends_by_coded:
  fixes e :: "cell \<Rightarrow> nat option"
  assumes na: "\<And>x. x \<in> B \<Longrightarrow> (e x = None) = (x = NaN)"
    and de: "\<And>x. x \<in> B \<Longrightarrow> x \<noteq> NaN \<Longrightarrow> dec (e x) = x"
    and iso: "\<And>x y. x \<in> B \<Longrightarrow> y \<in> B \<Longrightarrow> x \<noteq> NaN \<Longrightarrow> y \<noteq> NaN \<Longrightarrow>
                (the (e x) \<le> the (e y)) = (cell_key x \<le> cell_key y)"
    and B: "bowler ` fst ` set rs \<subseteq> B"
  shows "bowler_trends_by (\<lambda>c. c = None) the dec (map (\<lambda>(r, l). (map_ids e' e r, l)) rs) =
         bowler_trends_by (\<lambda>c. c = NaN) cell_key id rs"
proof -
  let ?rs' = "map (\<lambda>(r, l). (map_ids e' e r, l)) rs"
  let ?gs = "map (\<lambda>r. (bowler (fst r), snd r)) rs"
  let ?f = "\<lambda>(b, l :: nat). (e b, l)"
  let ?ks = "group_keys (\<lambda>(b, l). b = NaN) (\<lambda>(b, l). (cell_key b, l)) ?gs"
  let ?ks' = "group_keys (\<lambda>(b, l). b = None) (\<lambda>(b, l). (the b, l))
                (map (\<lambda>r. (bowler (fst r), snd r)) ?rs')"
  have gs': "map (\<lambda>r. (bowler (fst r), snd r)) ?rs' = map ?f ?gs"
    by (simp add: split_def comp_def)
  have Bg: "fst ` set ?gs \<subseteq> B"
  proof
    fix x assume "x \<in> fst ` set ?gs"
    then obtain r where "r \<in> set rs" and "x = bowler (fst r)" by auto
    then have "x \<in> bowler ` fst ` set rs" by blast
    with B show "x \<in> B" by blast
  qed
  have ks: "?ks' = map ?f ?ks"
    unfolding gs' by (rule pair_keys_coded [OF na iso Bg])
  have kB: "b \<in> B \<and> b \<noteq> NaN" if "b \<in> fst ` set ?ks" for b
    using that Bg by (auto simp: split_def)
  have rB: "bowler (fst r) \<in> B" if "r \<in> set rs" for r
  proof -
    from that have "bowler (fst r) \<in> bowler ` fst ` set rs" by blast
    with B show ?thesis by blast
  qed
  note group_keys_set [simp del]
  have cols: "map snd (map ?f ?ks) = map snd ?ks"
    unfolding map_map by (rule map_cong [OF refl]) (simp add: split_def)
  have inj: "inj_on e (set (map fst ?ks))"
  proof (rule inj_onI)
    fix x y assume x: "x \<in> set (map fst ?ks)" and y: "y \<in> set (map fst ?ks)"
      and eq: "e x = e y"
    from x have "x \<in> fst ` set ?ks" by (simp only: set_map)
    from kB [OF this] have xB: "x \<in> B" by (rule conjunct1)
    from y have "y \<in> fst ` set ?ks" by (simp only: set_map)
    from kB [OF this] have yB: "y \<in> B" and yn: "y \<noteq> NaN" by (rule conjunct1, rule conjunct2)
    from coded_eq_iff [OF na de xB yB yn] eq show "x = y" by (rule iffD1)
  qed
  have idx: "remdups (map fst (map ?f ?ks)) = map e (remdups (map fst ?ks))"
  proof -
    have "map fst (map ?f ?ks) = map e (map fst ?ks)"
      unfolding map_map by (rule map_cong [OF refl]) (simp add: split_def)
    then show ?thesis by (simp only: remdups_map_inj_on [OF inj])
  qed
  have mem: "((e b, l) \<in> set (map ?f ?ks)) = ((b, l) \<in> set ?ks)" if "b \<in> fst ` set ?ks" for b l
  proof
    assume "(e b, l) \<in> set (map ?f ?ks)"
    then have "(e b, l) \<in> ?f ` set ?ks" by (simp only: set_map)
    then obtain k where k: "k \<in> set ?ks" and ek: "(e b, l) = ?f k" by (rule imageE)
    obtain b' l' where kk: "k = (b', l')" by (cases k)
    from ek have eq: "e b' = e b" and l: "l' = l" unfolding kk by simp_all
    from k have "fst k \<in> fst ` set ?ks" by (rule imageI)
    then have "b' \<in> fst ` set ?ks" unfolding kk by (simp only: fst_conv)
    from kB [OF this] have b'B: "b' \<in> B" by (rule conjunct1)
    from kB [OF that] have bB: "b \<in> B" and bn: "b \<noteq> NaN" by (rule conjunct1, rule conjunct2)
    from coded_eq_iff [OF na de b'B bB bn] eq have "b' = b" by (rule iffD1)
    with k show "(b, l) \<in> set ?ks" unfolding kk l by (simp only:)
  next
    assume "(b, l) \<in> set ?ks"
    then have "?f (b, l) \<in> ?f ` set ?ks" by (rule imageI)
    then show "(e b, l) \<in> set (map ?f ?ks)" by (simp only: set_map prod.case)
  qed
  have size: "length (filter (\<lambda>r. (bowler (fst r), snd r) = (e b, l)) ?rs') =
              length (filter (\<lambda>r. (bowler (fst r), snd r) = (b, l)) rs)"
    if "b \<in> fst ` set ?ks" for b l
  proof -
    from kB [OF that] have b: "b \<in> B" "b \<noteq> NaN" by simp_all
    have "filter ((\<lambda>r. (bowler (fst r), snd r) = (e b, l)) \<circ> (\<lambda>(r, l). (map_ids e' e r, l))) rs =
          filter (\<lambda>r. (bowler (fst r), snd r) = (b, l)) rs"
    proof (rule filter_cong [OF refl])
      fix r assume "r \<in> set rs"
      from coded_eq_iff [OF na de rB [OF this] b]
      show "((\<lambda>r. (bowler (fst r), snd r) = (e b, l)) \<circ> (\<lambda>(r, l). (map_ids e' e r, l))) r =
            ((bowler (fst r), snd r) = (b, l))"
        by (simp add: split_def)
    qed
    then have "length (filter (\<lambda>r. (bowler (fst r), snd r) = (e b, l)) ?rs') =
               length (map (\<lambda>(r, l). (map_ids e' e r, l))
                         (filter (\<lambda>r. (bowler (fst r), snd r) = (b, l)) rs))"
      by (simp only: filter_map)
    then show ?thesis by simp
  qed
  have counts: "map (\<lambda>b. (dec b,
                    map (\<lambda>l. if (b, l) \<in> set (map ?f ?ks)
                             then length (filter (\<lambda>r. (bowler (fst r), snd r) = (b, l)) ?rs')
                             else 0)
                        (sort (remdups (map snd ?ks)))))
             (map e (remdups (map fst ?ks))) =
        map (\<lambda>b. (id b,
                    map (\<lambda>l. if (b, l) \<in> set ?ks
                             then length (filter (\<lambda>r. (bowler (fst r), snd r) = (b, l)) rs)
                             else 0)
                        (sort (remdups (map snd ?ks)))))
             (remdups (map fst ?ks))"
    unfolding map_map
  proof (rule map_cong [OF refl])
    fix b assume "b \<in> set (remdups (map fst ?ks))"
    then have b: "b \<in> fst ` set ?ks" by simp
    from kB [OF b] have "dec (e b) = b" by (simp add: de)
    with mem [OF b] size [OF b]
    show "((\<lambda>b. (dec b,
                    map (\<lambda>l. if (b, l) \<in> set (map ?f ?ks)
                             then length (filter (\<lambda>r. (bowler (fst r), snd r) = (b, l)) ?rs')
                             else 0)
                        (sort (remdups (map snd ?ks))))) \<circ> e) b =
          (id b,
                    map (\<lambda>l. if (b, l) \<in> set ?ks
                             then length (filter (\<lambda>r. (bowler (fst r), snd r) = (b, l)) rs)
                             else 0)
                        (sort (remdups (map snd ?ks))))"
      by (simp only: comp_apply id_apply)
  qed
  show ?thesis
    unfolding bowler_trends_by_alt [of _ _ _ ?rs'] bowler_trends_by_alt [of _ _ _ rs]
      ks cols idx counts ..
qed


lemma prepare_both:
  fixes rng km delivery_df match_df
  defines "P \<equiv> fillna (sample rng (merge delivery_df match_df))"
  defines "bc \<equiv> categories_of (map batter P)"
  defines "wc \<equiv> categories_of (map bowler P)"
  shows "(\<exists>e. prepare rng km delivery_df match_df = Inl e
              \<and> prepare_plain rng km delivery_df match_df = Inl e)
       \<or> (\<exists>ls. prepare rng km delivery_df match_df =
                  Inr \<lparr> batter_categories = bc, bowler_categories = wc,
                        rows = map (\<lambda>(r, l). (map_ids (encode bc) (encode wc) r, l)) (zip P ls) \<rparr>
              \<and> prepare_plain rng km delivery_df match_df = Inr (zip P ls))"
proof -
  let ?enc = "map_ids (encode bc) (encode wc)"
  have f: "map (features \<circ> ?enc) P = map features P"
    by (rule map_cong [OF refl]) simp
  have a: "astype_category P =
      \<lparr> batter_categories = bc, bowler_categories = wc, rows = map ?enc P \<rparr>"
    by (simp add: astype_category_def Let_def bc_def wc_def)
  show ?thesis
  proof (cases "fit_predict km (map features P)")
    case (Inl e)
    then have "prepare rng km delivery_df match_df = Inl e"
      by (simp add: prepare_def cluster_def add_delivery_type_def a f P_def [symmetric])
    moreover from Inl have "prepare_plain rng km delivery_df match_df = Inl e"
      by (simp add: prepare_plain_def add_delivery_type_def P_def [symmetric])
    ultimately show ?thesis by blast
  next
    case (Inr ls)
    have z: "zip (map ?enc P) ls = map (\<lambda>(r, l). (?enc r, l)) (zip P ls)"
      by (rule zip_map1)
    from Inr have "prepare rng km delivery_df match_df =
                  Inr \<lparr> batter_categories = bc, bowler_categories = wc,
                        rows = map (\<lambda>(r, l). (?enc r, l)) (zip P ls) \<rparr>"
      by (simp add: prepare_def cluster_def add_delivery_type_def a f z P_def [symmetric])
    moreover from Inr have "prepare_plain rng km delivery_df match_df = Inr (zip P ls)"
      by (simp add: prepare_plain_def add_delivery_type_def P_def [symmetric])
    ultimately show ?thesis by blast
  qed
qed

text \<open>
  C9. For every input the script computes the same three tables as the script
  without the two conversions to categorical columns: the same batter table, the
  same bowler table and the same table of bowler economy, row for row; and where
  one of the two raises before the tables, the other raises the same.
\<close>

theorem categorical_same_tables:
  "map_sum id batter_stats (prepare rng km delivery_df match_df) =
     map_sum id batter_stats_plain (prepare_plain rng km delivery_df match_df)
   \<and> map_sum id bowler_trends (prepare rng km delivery_df match_df) =
       map_sum id bowler_trends_plain (prepare_plain rng km delivery_df match_df)
   \<and> map_sum id bowler_economy_table (prepare rng km delivery_df match_df) =
       map_sum id bowler_economy_plain (prepare_plain rng km delivery_df match_df)"
proof -
  let ?P = "fillna (sample rng (merge delivery_df match_df))"
  let ?bc = "categories_of (map batter ?P)"
  let ?wc = "categories_of (map bowler ?P)"
  from prepare_both [of rng km delivery_df match_df]
  consider (raised) e where "prepare rng km delivery_df match_df = Inl e"
      "prepare_plain rng km delivery_df match_df = Inl e"
    | (tables) ls where "prepare rng km delivery_df match_df =
                  Inr \<lparr> batter_categories = ?bc, bowler_categories = ?wc,
                        rows = map (\<lambda>(r, l). (map_ids (encode ?bc) (encode ?wc) r, l)) (zip ?P ls) \<rparr>"
      "prepare_plain rng km delivery_df match_df = Inr (zip ?P ls)"
    by blast
  then show ?thesis
  proof cases
    case raised
    then show ?thesis by simp
  next
    case tables
    let ?rs = "zip ?P ls"
    have Bb: "batter ` fst ` set ?rs \<subseteq> set (map batter ?P)"
      by (auto dest: set_zip_leftD)
    have Bw: "bowler ` fst ` set ?rs \<subseteq> set (map bowler ?P)"
      by (auto dest: set_zip_leftD)
    note cb = encode_coding [where B = "set (map batter ?P)" and vs = "map batter ?P",
        OF subset_refl]
    note cw = encode_coding [where B = "set (map bowler ?P)" and vs = "map bowler ?P",
        OF subset_refl]
    have 1: "batter_stats_by (\<lambda>c. c = None) the (decode ?bc)
               (map (\<lambda>(r, l). (map_ids (encode ?bc) (encode ?wc) r, l)) ?rs) =
             batter_stats_by (\<lambda>c. c = NaN) cell_key id ?rs"
      by (rule batter_stats_by_coded [OF cb Bb])
    have 2: "bowler_trends_by (\<lambda>c. c = None) the (decode ?wc)
               (map (\<lambda>(r, l). (map_ids (encode ?bc) (encode ?wc) r, l)) ?rs) =
             bowler_trends_by (\<lambda>c. c = NaN) cell_key id ?rs"
      by (rule bowler_trends_by_coded [OF cw Bw])
    have 3: "bowler_economy_by (\<lambda>c. c = None) the (decode ?wc)
               (map (\<lambda>(r, l). (map_ids (encode ?bc) (encode ?wc) r, l)) ?rs) =
             bowler_economy_by (\<lambda>c. c = NaN) cell_key id ?rs"
      by (rule bowler_economy_by_coded [OF cw Bw])
    from tables 1 2 3 show ?thesis
      by (simp add: batter_stats_def batter_stats_plain_def bowler_trends_def
          bowler_trends_plain_def bowler_economy_table_def bowler_economy_plain_def)
  qed
qed

theorem categorical_same_tables_witness:
  "map_sum id batter_stats_plain (prepare_plain ex_rng ex_km ex_deliveries ex_matches) =
     Inr (batter_stats ex_frame)
   \<and> map_sum id bowler_trends_plain (prepare_plain ex_rng ex_km ex_deliveries ex_matches) =
       Inr (bowler_trends ex_frame)
   \<and> map_sum id bowler_economy_plain (prepare_plain ex_rng ex_km ex_deliveries ex_matches) =
       Inr (bowler_economy_table ex_frame)
   \<and> map bs_batter (batter_stats ex_frame) = [Num 0, Str ''Kohli'', Str ''Root'']"
proof -
  note t = categorical_same_tables [of ex_rng ex_km ex_deliveries ex_matches]
  have b: "map bs_batter (batter_stats ex_frame) = [Num 0, Str ''Kohli'', Str ''Root'']"
    by (simp add: batter_stats_ex)
  from t b show ?thesis by (simp add: prepare_ex)
qed

section \<open>Labels\<close>

text \<open>
  C6. Every delivery-type label of the clustered table is one of 0, 1, 2, 3, and the
  table holds at most four different labels.
\<close>

theorem delivery_type_in_range:
  assumes "prepare rng km delivery_df match_df = Inr df"
  shows "(\<forall>r \<in> set (rows df). snd r \<in> {0, 1, 2, 3}) \<and> card (snd ` set (rows df)) \<le> 4"
proof -
  have lab: "snd r \<in> {0, 1, 2, 3}" if "r \<in> set (rows df)" for r
    using prepare_rows(7) [OF assms that] by (auto simp: n_clusters_def)
  have "snd ` set (rows df) \<subseteq> {0, 1, 2, 3}"
  proof
    fix l assume "l \<in> snd ` set (rows df)"
    then obtain r where "r \<in> set (rows df)" and "l = snd r" by blast
    with lab [of r] show "l \<in> {0, 1, 2, 3}" by blast
  qed
  then have "card (snd ` set (rows df)) \<le> card {0, 1, 2, 3 :: nat}"
    by (intro card_mono) simp_all
  then have "card (snd ` set (rows df)) \<le> 4" by simp
  moreover from lab have "\<forall>r \<in> set (rows df). snd r \<in> {0, 1, 2, 3}" by blast
  ultimately show ?thesis by (rule conjI [rotated])
qed

theorem delivery_type_in_range_witness:
  "prepare ex_rng ex_km ex_deliveries ex_matches = Inr ex_frame
   \<and> map snd (rows ex_frame) = [0, 0, 0, 1]
   \<and> list_all (\<lambda>r. snd r \<in> {0, 1, 2, 3}) (rows ex_frame)
   \<and> card (snd ` set (rows ex_frame)) \<le> 4"
proof -
  note t = delivery_type_in_range [OF prepare_ex]
  from t have a: "list_all (\<lambda>r. snd r \<in> {0, 1, 2, 3}) (rows ex_frame)"
    unfolding list_all_iff by blast
  from t have b: "card (snd ` set (rows ex_frame)) \<le> 4" by blast
  have c: "map snd (rows ex_frame) = [0, 0, 0, 1]" by (simp add: ex_frame_def)
  from prepare_ex a b c show ?thesis by blast
qed

end
